theory Spec2Isabelle
  imports Complex_Main "HOL-Library.Char_ord" "HOL-Library.List_Lexorder"
begin

section \<open>Python values shared by the renderer and the routes\<close>

text \<open>
  A Python \<open>str\<close> is a sequence of code points. It is modelled as a \<open>string\<close> whose
  characters are the code points below 256, so that \<open>CHR 0xB0\<close> is the degree sign and
  \<open>CHR 0xA0\<close> the no-break space.

  An exception is kept as the most specific of the classes that the handlers of
  \<open>routes.py\<close> tell apart, together with the text that \<open>str(e)\<close> returns:
  \<open>ValueError\<close> stands for that class and its subclasses, \<open>OtherException\<close> for every
  other subclass of \<open>Exception\<close>, \<open>NonException\<close> for what only \<open>BaseException\<close> covers.
\<close>

datatype exn_class = ValueError | OtherException | NonException

datatype exn = Exn exn_class string

text \<open>Sequencing of computations that may raise.\<close>

definition thn :: "exn + 'a \<Rightarrow> ('a \<Rightarrow> exn + 'b) \<Rightarrow> exn + 'b" where
  "thn r f = (case r of Inl e \<Rightarrow> Inl e | Inr x \<Rightarrow> f x)"

text \<open>Python floats: the finite values by their exact rational value, and the special ones.\<close>

datatype pyfloat = Fin rat | NegZero | PosInf | NegInf | NaN

text \<open>\<open>x >= 0\<close>, \<open>x < 0\<close> and \<open>abs(x)\<close> on floats.\<close>

fun ge0 :: "pyfloat \<Rightarrow> bool" where
  "ge0 (Fin r) = (r \<ge> 0)"
| "ge0 NegZero = True"
| "ge0 PosInf = True"
| "ge0 NegInf = False"
| "ge0 NaN = False"

fun lt0 :: "pyfloat \<Rightarrow> bool" where
  "lt0 (Fin r) = (r < 0)"
| "lt0 NegZero = False"
| "lt0 PosInf = False"
| "lt0 NegInf = True"
| "lt0 NaN = False"

fun py_abs :: "pyfloat \<Rightarrow> pyfloat" where
  "py_abs (Fin r) = Fin \<bar>r\<bar>"
| "py_abs NegZero = Fin 0"
| "py_abs PosInf = PosInf"
| "py_abs NegInf = PosInf"
| "py_abs NaN = NaN"

text \<open>The value that \<open>json.load\<close> returns. An object is the resulting \<open>dict\<close>.\<close>

datatype json =
    JNull
  | JBool bool
  | JInt int
  | JFloat pyfloat
  | JStr string
  | JArr "json list"
  | JObj "(string \<times> json) list"

text \<open>\<open>str(KeyError(k))\<close> is the \<open>repr\<close> of the key; the keys used are plain identifiers.\<close>

definition key_error :: "string \<Rightarrow> exn" where
  "key_error k = Exn OtherException ([CHR 0x27] @ k @ [CHR 0x27])"

text \<open>The text of the \<open>TypeError\<close> of Python 3.11 for \<open>v[k]\<close> with a \<open>str\<close> key.\<close>

fun type_error_text :: "json \<Rightarrow> string" where
  "type_error_text JNull = [CHR 0x27] @ ''NoneType'' @ [CHR 0x27] @ '' object is not subscriptable''"
| "type_error_text (JBool b) = [CHR 0x27] @ ''bool'' @ [CHR 0x27] @ '' object is not subscriptable''"
| "type_error_text (JInt i) = [CHR 0x27] @ ''int'' @ [CHR 0x27] @ '' object is not subscriptable''"
| "type_error_text (JFloat f) = [CHR 0x27] @ ''float'' @ [CHR 0x27] @ '' object is not subscriptable''"
| "type_error_text (JStr s) = ''string indices must be integers, not '' @ [CHR 0x27] @ ''str'' @ [CHR 0x27]"
| "type_error_text (JArr xs) = ''list indices must be integers or slices, not str''"
| "type_error_text (JObj kvs) = []"

text \<open>\<open>theme[k]\<close>: the value, \<open>KeyError\<close> on a dict without the key, \<open>TypeError\<close> otherwise.\<close>

fun subscript :: "json \<Rightarrow> string \<Rightarrow> exn + json" where
  "subscript (JObj kvs) k = (case map_of kvs k of None \<Rightarrow> Inl (key_error k) | Some v \<Rightarrow> Inr v)"
| "subscript v k = Inl (Exn OtherException (type_error_text v))"

text \<open>
  \<open>theme_data.get(k, default)\<close>: only a dict has the method; on anything else the attribute
  lookup raises \<open>AttributeError\<close>.
\<close>

fun type_name :: "json \<Rightarrow> string" where
  "type_name JNull = ''NoneType''"
| "type_name (JBool b) = ''bool''"
| "type_name (JInt i) = ''int''"
| "type_name (JFloat f) = ''float''"
| "type_name (JStr s) = ''str''"
| "type_name (JArr xs) = ''list''"
| "type_name (JObj kvs) = ''dict''"

fun dict_get :: "json \<Rightarrow> string \<Rightarrow> json \<Rightarrow> exn + json" where
  "dict_get (JObj kvs) k d = (case map_of kvs k of None \<Rightarrow> Inr d | Some v \<Rightarrow> Inr v)"
| "dict_get v k d =
     Inl (Exn OtherException ([CHR 0x27] @ type_name v @ [CHR 0x27] @ '' object has no attribute ''
            @ [CHR 0x27] @ ''get'' @ [CHR 0x27]))"

section \<open>Map styling functions (renderer.py)\<close>

text \<open>
  The value of an edge attribute of the fetched graph: a string, or a list of strings where
  several ways were merged. The data of an edge is a dict of such attributes.
\<close>

datatype tag_value = Str string | Lst "string list"

type_synonym edge_data = "(string \<times> tag_value) list"

type_synonym edge = "nat \<times> nat \<times> edge_data"

text \<open>\<open>data.get('highway', 'unclassified')\<close>\<close>

definition get_highway :: "edge_data \<Rightarrow> tag_value" where
  "get_highway data = (case map_of data ''highway'' of None \<Rightarrow> Str ''unclassified'' | Some v \<Rightarrow> v)"

text \<open>\<open>if isinstance(highway, list): highway = highway[0] if highway else 'unclassified'\<close>\<close>

fun first_of_list :: "tag_value \<Rightarrow> string" where
  "first_of_list (Lst []) = ''unclassified''"
| "first_of_list (Lst (h # hs)) = h"
| "first_of_list (Str s) = s"

text \<open>The body of the loop of \<open>get_edge_colors_by_type\<close>.\<close>

definition edge_color :: "json \<Rightarrow> edge_data \<Rightarrow> exn + json" where
  "edge_color theme data =
     (let highway = first_of_list (get_highway data) in
      if highway \<in> set [''motorway'', ''motorway_link''] then subscript theme ''road_motorway''
      else if highway \<in> set [''trunk'', ''trunk_link'', ''primary'', ''primary_link'']
        then subscript theme ''road_primary''
      else if highway \<in> set [''secondary'', ''secondary_link''] then subscript theme ''road_secondary''
      else if highway \<in> set [''tertiary'', ''tertiary_link''] then subscript theme ''road_tertiary''
      else if highway \<in> set [''residential'', ''living_street'', ''unclassified'']
        then subscript theme ''road_residential''
      else subscript theme ''road_default'')"

text \<open>The loop itself: \<open>edge_colors\<close> is the list built so far; an exception ends the loop.\<close>

fun edge_colors_loop :: "json \<Rightarrow> edge list \<Rightarrow> json list \<Rightarrow> exn + json list" where
  "edge_colors_loop theme [] edge_colors = Inr edge_colors"
| "edge_colors_loop theme ((u, v, data) # es) edge_colors =
     (case edge_color theme data of
        Inl e \<Rightarrow> Inl e
      | Inr color \<Rightarrow> edge_colors_loop theme es (edge_colors @ [color]))"

definition get_edge_colors_by_type :: "edge list \<Rightarrow> json \<Rightarrow> exn + json list" where
  "get_edge_colors_by_type G theme = edge_colors_loop theme G []"

text \<open>
  The body of the loop of \<open>get_edge_widths_by_type\<close>. The float literals of the source are
  kept as the decimal fractions they are written as.
\<close>

definition edge_width :: "edge_data \<Rightarrow> rat" where
  "edge_width data =
     (let highway = first_of_list (get_highway data) in
      if highway \<in> set [''motorway'', ''motorway_link''] then 12 / 10
      else if highway \<in> set [''trunk'', ''trunk_link'', ''primary'', ''primary_link''] then 10 / 10
      else if highway \<in> set [''secondary'', ''secondary_link''] then 8 / 10
      else if highway \<in> set [''tertiary'', ''tertiary_link''] then 6 / 10
      else 4 / 10)"

fun edge_widths_loop :: "edge list \<Rightarrow> rat list \<Rightarrow> rat list" where
  "edge_widths_loop [] edge_widths = edge_widths"
| "edge_widths_loop ((u, v, data) # es) edge_widths =
     edge_widths_loop es (edge_widths @ [edge_width data])"

definition get_edge_widths_by_type :: "edge list \<Rightarrow> rat list" where
  "get_edge_widths_by_type G = edge_widths_loop G []"

subsection \<open>The table of the specification\<close>

text \<open>
  The classification as the specification words it: a road class for each set of tags, the
  theme field and the width of each class.
\<close>

datatype road_class = Motorway | Primary | Secondary | Tertiary | Residential | Default

definition spec_class :: "string \<Rightarrow> road_class" where
  "spec_class tag =
     (if tag \<in> {''motorway'', ''motorway_link''} then Motorway
      else if tag \<in> {''trunk'', ''trunk_link'', ''primary'', ''primary_link''} then Primary
      else if tag \<in> {''secondary'', ''secondary_link''} then Secondary
      else if tag \<in> {''tertiary'', ''tertiary_link''} then Tertiary
      else if tag \<in> {''residential'', ''living_street'', ''unclassified''} then Residential
      else Default)"

fun spec_color_field :: "road_class \<Rightarrow> string" where
  "spec_color_field Motorway = ''road_motorway''"
| "spec_color_field Primary = ''road_primary''"
| "spec_color_field Secondary = ''road_secondary''"
| "spec_color_field Tertiary = ''road_tertiary''"
| "spec_color_field Residential = ''road_residential''"
| "spec_color_field Default = ''road_default''"

fun spec_width :: "road_class \<Rightarrow> rat" where
  "spec_width Motorway = 12 / 10"
| "spec_width Primary = 10 / 10"
| "spec_width Secondary = 8 / 10"
| "spec_width Tertiary = 6 / 10"
| "spec_width Residential = 4 / 10"
| "spec_width Default = 4 / 10"

text \<open>
  The tag the specification classifies: the first element of a list, \<open>unclassified\<close> for an
  absent tag. It says nothing of an empty list.
\<close>

fun spec_tag :: "tag_value option \<Rightarrow> string option" where
  "spec_tag None = Some ''unclassified''"
| "spec_tag (Some (Str s)) = Some s"
| "spec_tag (Some (Lst (h # hs))) = Some h"
| "spec_tag (Some (Lst [])) = None"

text \<open>Collecting results in order, up to the first exception.\<close>

fun collect :: "(exn + 'a) list \<Rightarrow> exn + 'a list" where
  "collect [] = Inr []"
| "collect (Inl e # rs) = Inl e"
| "collect (Inr x # rs) = (case collect rs of Inl e \<Rightarrow> Inl e | Inr xs \<Rightarrow> Inr (x # xs))"

section \<open>String methods of Python used by the program\<close>

text \<open>\<open>c.isspace()\<close> on the code points below 256.\<close>

definition py_isspace :: "char \<Rightarrow> bool" where
  "py_isspace c \<longleftrightarrow>
     c \<in> set [CHR 0x09, CHR 0x0A, CHR 0x0B, CHR 0x0C, CHR 0x0D, CHR 0x1C, CHR 0x1D, CHR 0x1E,
               CHR 0x1F, CHR 0x20, CHR 0x85, CHR 0xA0]"

text \<open>\<open>s.strip()\<close> removes the white space at both ends.\<close>

definition py_strip :: "string \<Rightarrow> string" where
  "py_strip s = rev (dropWhile py_isspace (rev (dropWhile py_isspace s)))"

text \<open>
  \<open>s.replace(old, new)\<close>: the occurrences of \<open>old\<close> from left to right, without overlap; an
  empty \<open>old\<close> matches before every character and at the end.
\<close>

function py_replace :: "string \<Rightarrow> string \<Rightarrow> string \<Rightarrow> string" where
  "py_replace old new [] = (if old = [] then new else [])"
| "py_replace old new (c # cs) =
     (if old = [] then new @ c # py_replace old new cs
      else if take (length old) (c # cs) = old
        then new @ py_replace old new (drop (length old) (c # cs))
      else c # py_replace old new cs)"
  by pat_completeness auto
termination
  by (relation "measure (\<lambda>(old, new, s). length s)") auto

text \<open>\<open>s.lower()\<close>: on the code points below 256 the result stays below 256.\<close>

definition lower_char :: "char \<Rightarrow> char" where
  "lower_char c =
     (let n = (of_char c :: nat) in
      if (65 \<le> n \<and> n \<le> 90) \<or> (192 \<le> n \<and> n \<le> 222 \<and> n \<noteq> 215) then char_of (n + 32) else c)"

definition py_lower :: "string \<Rightarrow> string" where
  "py_lower s = map lower_char s"

text \<open>\<open>s.split('\n')\<close> and \<open>'\n'.join(lines)\<close>\<close>

fun split_nl :: "string \<Rightarrow> string list" where
  "split_nl [] = [[]]"
| "split_nl (c # cs) =
     (if c = CHR 0x0A then [] # split_nl cs
      else (case split_nl cs of [] \<Rightarrow> [[c]] | p # ps \<Rightarrow> (c # p) # ps))"

fun join_nl :: "string list \<Rightarrow> string" where
  "join_nl [] = []"
| "join_nl [l] = l"
| "join_nl (l # ls) = l @ CHR 0x0A # join_nl ls"

text \<open>Decimal digits of a natural number, and padding with zeros on the left.\<close>

definition digit_char :: "nat \<Rightarrow> char" where
  "digit_char d = ''0123456789'' ! (d mod 10)"

fun dec :: "nat \<Rightarrow> string" where
  "dec n = (if n < 10 then [digit_char n] else dec (n div 10) @ [digit_char (n mod 10)])"

declare dec.simps [simp del]

definition zpad :: "nat \<Rightarrow> string \<Rightarrow> string" where
  "zpad w s = replicate (w - length s) (CHR ''0'') @ s"

text \<open>
  \<open>f"{x:.4f}"\<close>: the value rounded to four decimals, ties to even on the exact value of the
  float; the sign is kept when the result rounds to zero.
\<close>

definition round_half_even :: "rat \<Rightarrow> nat" where
  "round_half_even q =
     (let f = nat \<lfloor>q\<rfloor>; r = q - of_int \<lfloor>q\<rfloor> in
      if r < 1 / 2 then f else if r > 1 / 2 then f + 1 else if even f then f else f + 1)"

definition format_fixed4 :: "rat \<Rightarrow> string" where
  "format_fixed4 q =
     (let n = round_half_even (\<bar>q\<bar> * 10000) in
      (if q < 0 then ''-'' else '''') @ dec (n div 10000) @ ''.'' @ zpad 4 (dec (n mod 10000)))"

fun format_4f :: "pyfloat \<Rightarrow> string" where
  "format_4f (Fin q) = format_fixed4 q"
| "format_4f NegZero = ''-0.0000''"
| "format_4f PosInf = ''inf''"
| "format_4f NegInf = ''-inf''"
| "format_4f NaN = ''nan''"

section \<open>The standard library's \<open>textwrap.wrap\<close> (CPython 3.11)\<close>

text \<open>
  \<open>textwrap.wrap(text, width)\<close> with the default options, as the renderer calls it: tabs are
  expanded, white space is replaced by spaces, the text is split into chunks, and the chunks
  are laid out greedily, dropping white space at the ends of lines and breaking long words.
\<close>

text \<open>The white space of \<open>textwrap\<close> is narrower than that of \<open>str.isspace\<close>.\<close>

definition tw_space :: "char \<Rightarrow> bool" where
  "tw_space c \<longleftrightarrow> c \<in> set [CHR 0x09, CHR 0x0A, CHR 0x0B, CHR 0x0C, CHR 0x0D, CHR 0x20]"

text \<open>\<open>text.expandtabs(8)\<close>, with the column counted from the last line break.\<close>

fun expandtabs :: "nat \<Rightarrow> string \<Rightarrow> string" where
  "expandtabs col [] = []"
| "expandtabs col (c # cs) =
     (if c = CHR 0x09
        then replicate (8 - col mod 8) (CHR 0x20) @ expandtabs (col + (8 - col mod 8)) cs
      else if c = CHR 0x0A \<or> c = CHR 0x0D then c # expandtabs 0 cs
      else c # expandtabs (Suc col) cs)"

definition munge_whitespace :: "string \<Rightarrow> string" where
  "munge_whitespace text = map (\<lambda>c. if tw_space c then CHR 0x20 else c) (expandtabs 0 text)"

text \<open>The character classes of \<open>wordsep_re\<close>: \<open>\<bsol>w\<close>, \<open>[^\<bsol>d\<bsol>W]\<close> and \<open>[\<bsol>w!"'&.,?]\<close>.\<close>

definition re_digit :: "char \<Rightarrow> bool" where
  "re_digit c \<longleftrightarrow> (let n = (of_char c :: nat) in 48 \<le> n \<and> n \<le> 57)"

definition re_word :: "char \<Rightarrow> bool" where
  "re_word c \<longleftrightarrow>
     (let n = (of_char c :: nat) in
      (48 \<le> n \<and> n \<le> 57) \<or> (65 \<le> n \<and> n \<le> 90) \<or> n = 95 \<or> (97 \<le> n \<and> n \<le> 122)
      \<or> n \<in> set [170, 178, 179, 181, 185, 186, 188, 189, 190]
      \<or> (192 \<le> n \<and> n \<le> 214) \<or> (216 \<le> n \<and> n \<le> 246) \<or> 248 \<le> n)"

definition re_letter :: "char \<Rightarrow> bool" where
  "re_letter c \<longleftrightarrow> re_word c \<and> \<not> re_digit c"

definition re_word_punct :: "char \<Rightarrow> bool" where
  "re_word_punct c \<longleftrightarrow>
     re_word c \<or> c \<in> set [CHR ''!'', CHR 0x22, CHR 0x27, CHR ''&'', CHR ''.'', CHR '','', CHR ''?'']"

text \<open>
  The look-behind of the hyphen alternative, on the text before the hyphen in reverse: two
  letters, or letter, hyphen, letter. Its look-ahead: a letter, an optional hyphen, a letter.
\<close>

fun hyphen_behind :: "string \<Rightarrow> bool" where
  "hyphen_behind (a # b # c # bs) =
     (re_letter a \<and> (re_letter b \<or> (b = CHR ''-'' \<and> re_letter c)))"
| "hyphen_behind [a, b] = (re_letter a \<and> re_letter b)"
| "hyphen_behind bs = False"

fun hyphen_ahead :: "string \<Rightarrow> bool" where
  "hyphen_ahead (a # b # c # cs) =
     (re_letter a \<and> (re_letter b \<or> (b = CHR ''-'' \<and> re_letter c)))"
| "hyphen_ahead [a, b] = (re_letter a \<and> re_letter b)"
| "hyphen_ahead cs = False"

text \<open>Two or more hyphens followed by a word character.\<close>

definition emdash_ahead :: "string \<Rightarrow> bool" where
  "emdash_ahead r =
     (let n = length (takeWhile (\<lambda>x. x = CHR ''-'') r) in
      2 \<le> n \<and> (case drop n r of [] \<Rightarrow> False | x # xs \<Rightarrow> re_word x))"

definition punct_behind :: "string \<Rightarrow> bool" where
  "punct_behind bef = (case bef of [] \<Rightarrow> False | b # bs \<Rightarrow> re_word_punct b)"

text \<open>
  The lazy word of the third alternative: with at least one character taken and \<open>bef\<close> the
  text before the position in reverse, the number of further characters the match takes.
\<close>

fun word_rest :: "string \<Rightarrow> string \<Rightarrow> nat" where
  "word_rest bef [] = 0"
| "word_rest bef (c # cs) =
     (if c = CHR ''-'' \<and> hyphen_behind bef \<and> hyphen_ahead cs then 1
      else if tw_space c then 0
      else if punct_behind bef \<and> emdash_ahead (c # cs) then 0
      else Suc (word_rest (c # bef) cs))"

text \<open>The characters a match takes after its first one, \<open>c\<close>.\<close>

definition chunk_more :: "string \<Rightarrow> char \<Rightarrow> string \<Rightarrow> nat" where
  "chunk_more bef c cs =
     (if tw_space c then length (takeWhile tw_space cs)
      else if punct_behind bef \<and> emdash_ahead (c # cs) then length (takeWhile (\<lambda>x. x = CHR ''-'') cs)
      else word_rest (c # bef) cs)"

text \<open>\<open>_split\<close>: the matches of \<open>wordsep_re\<close> from left to right; they leave no gap.\<close>

fun tw_split :: "string \<Rightarrow> string \<Rightarrow> string list" where
  "tw_split bef [] = []"
| "tw_split bef (c # cs) =
     (c # take (chunk_more bef c cs) cs)
       # tw_split (rev (take (chunk_more bef c cs) cs) @ c # bef) (drop (chunk_more bef c cs) cs)"

text \<open>The inner loop of \<open>_wrap_chunks\<close>: chunks are taken while they fit.\<close>

fun fill_line :: "nat \<Rightarrow> string list \<Rightarrow> nat \<Rightarrow> string list \<Rightarrow> string list \<times> nat \<times> string list" where
  "fill_line width cur_line cur_len [] = (cur_line, cur_len, [])"
| "fill_line width cur_line cur_len (c # chunks) =
     (if cur_len + length c \<le> width
        then fill_line width (cur_line @ [c]) (cur_len + length c) chunks
      else (cur_line, cur_len, c # chunks))"

text \<open>\<open>chunk.rfind('-', 0, space_left)\<close>\<close>

definition rfind :: "char \<Rightarrow> string \<Rightarrow> nat option" where
  "rfind x s =
     (if x \<in> set s then Some (length s - 1 - length (takeWhile (\<lambda>y. y \<noteq> x) (rev s))) else None)"

text \<open>
  \<open>_handle_long_word\<close>: the index at which the chunk that fits on no line is cut. The current
  length never exceeds the width here, so the subtraction is that of the integers.
\<close>

definition long_word_end :: "nat \<Rightarrow> nat \<Rightarrow> string \<Rightarrow> nat" where
  "long_word_end width cur_len chunk =
     (let space_left = (if width < 1 then 1 else width - cur_len) in
      if length chunk > space_left then
        (case rfind (CHR ''-'') (take space_left chunk) of
           None \<Rightarrow> space_left
         | Some hyphen \<Rightarrow>
             if hyphen > 0 \<and> (\<exists>c \<in> set (take hyphen chunk). c \<noteq> CHR ''-'') then hyphen + 1
             else space_left)
      else space_left)"

text \<open>One pass of the outer loop: the line it adds, if any, and the chunks that remain.\<close>

definition wrap_line :: "nat \<Rightarrow> bool \<Rightarrow> string list \<Rightarrow> string list \<times> string list" where
  "wrap_line width first chunks =
     (let chunks1 = (if py_strip (hd chunks) = [] \<and> \<not> first then tl chunks else chunks);
          (cur_line, cur_len, chunks2) = fill_line width [] 0 chunks1;
          (cur_line2, chunks3) =
            (if chunks2 \<noteq> [] \<and> length (hd chunks2) > width
               then (cur_line @ [take (long_word_end width cur_len (hd chunks2)) (hd chunks2)],
                     drop (long_word_end width cur_len (hd chunks2)) (hd chunks2) # tl chunks2)
             else (cur_line, chunks2));
          cur_line3 = (if cur_line2 \<noteq> [] \<and> py_strip (last cur_line2) = []
                         then butlast cur_line2 else cur_line2)
      in (cur_line3, chunks3))"

text \<open>The size that every pass of the outer loop decreases.\<close>

definition chunks_size :: "string list \<Rightarrow> nat" where
  "chunks_size chunks = length chunks + sum_list (map length chunks)"

lemma fill_line_takes:
  "fill_line width cur_line cur_len chunks = (cur_line', cur_len', chunks') \<Longrightarrow>
   \<exists>taken. chunks = taken @ chunks' \<and> cur_line' = cur_line @ taken
     \<and> cur_len' = cur_len + sum_list (map length taken)
     \<and> (chunks' \<noteq> [] \<longrightarrow> \<not> cur_len' + length (hd chunks') \<le> width)"
proof (induction width cur_line cur_len chunks rule: fill_line.induct)
  case (1 width cur_line cur_len)
  then show ?case by simp
next
  case (2 width cur_line cur_len c chunks)
  show ?case
  proof (cases "cur_len + length c \<le> width")
    case True
    with 2 obtain taken where
      t: "chunks = taken @ chunks'" "cur_line' = (cur_line @ [c]) @ taken"
         "cur_len' = (cur_len + length c) + sum_list (map length taken)"
         "chunks' \<noteq> [] \<longrightarrow> \<not> cur_len' + length (hd chunks') \<le> width"
      by fastforce
    then have "c # chunks = (c # taken) @ chunks' \<and> cur_line' = cur_line @ (c # taken)
        \<and> cur_len' = cur_len + sum_list (map length (c # taken))
        \<and> (chunks' \<noteq> [] \<longrightarrow> \<not> cur_len' + length (hd chunks') \<le> width)"
      by simp
    then show ?thesis by blast
  next
    case False
    with 2 have "chunks' = c # chunks" "cur_line' = cur_line" "cur_len' = cur_len"
      by simp_all
    with False have "c # chunks = [] @ chunks' \<and> cur_line' = cur_line @ []
        \<and> cur_len' = cur_len + sum_list (map length [])
        \<and> (chunks' \<noteq> [] \<longrightarrow> \<not> cur_len' + length (hd chunks') \<le> width)"
      by simp
    then show ?thesis by blast
  qed
qed

lemma long_word_end_pos: "0 < long_word_end width 0 chunk"
  by (auto simp: long_word_end_def Let_def split: option.splits)

lemma chunks_size_append: "chunks_size (xs @ ys) = chunks_size xs + chunks_size ys"
  by (simp add: chunks_size_def)

lemma chunks_size_drop_hd:
  "chunks \<noteq> [] \<Longrightarrow> chunks_size (drop n (hd chunks) # tl chunks) \<le> chunks_size chunks"
  by (cases chunks) (simp_all add: chunks_size_def)

lemma chunks_size_drop_hd_less:
  "chunks \<noteq> [] \<Longrightarrow> hd chunks \<noteq> [] \<Longrightarrow> 0 < n \<Longrightarrow>
   chunks_size (drop n (hd chunks) # tl chunks) < chunks_size chunks"
  by (cases chunks) (auto simp: chunks_size_def)

lemma wrap_line_decreases:
  assumes "chunks \<noteq> []" and "wrap_line width first chunks = (cur_line, rest)"
  shows "chunks_size rest < chunks_size chunks"
proof -
  define chunks1 where "chunks1 = (if py_strip (hd chunks) = [] \<and> \<not> first then tl chunks else chunks)"
  obtain cur len chunks2 where f: "fill_line width [] 0 chunks1 = (cur, len, chunks2)"
    by (cases "fill_line width [] 0 chunks1") auto
  from fill_line_takes [OF f] obtain taken where
    t: "chunks1 = taken @ chunks2" "cur = taken" "len = sum_list (map length taken)"
       "chunks2 \<noteq> [] \<longrightarrow> \<not> len + length (hd chunks2) \<le> width"
    by auto
  define long where "long \<longleftrightarrow> chunks2 \<noteq> [] \<and> length (hd chunks2) > width"
  have rest: "rest = (if long
      then drop (long_word_end width len (hd chunks2)) (hd chunks2) # tl chunks2 else chunks2)"
    using assms(2) f [unfolded chunks1_def]
    by (auto simp: wrap_line_def long_def Let_def split: if_splits)
  have le2: "chunks_size rest \<le> chunks_size chunks2"
    using rest chunks_size_drop_hd [of chunks2] by (auto simp: long_def)
  have le1: "chunks_size chunks2 \<le> chunks_size chunks1"
    using t(1) by (simp add: chunks_size_append)
  have le0: "chunks_size chunks1 \<le> chunks_size chunks"
    using assms(1) by (cases chunks) (auto simp: chunks1_def chunks_size_def)
  show ?thesis
  proof (cases "py_strip (hd chunks) = [] \<and> \<not> first")
    case True
    then have "chunks_size chunks1 < chunks_size chunks"
      using assms(1) by (cases chunks) (auto simp: chunks1_def chunks_size_def)
    with le1 le2 show ?thesis by simp
  next
    case False
    then have c1: "chunks1 = chunks" by (auto simp: chunks1_def)
    show ?thesis
    proof (cases "taken = []")
      case False
      then have "chunks_size chunks2 < chunks_size chunks1"
        using t(1) by (cases taken) (auto simp: chunks_size_def)
      with le2 c1 show ?thesis by simp
    next
      case True
      with t c1 assms(1) have c2: "chunks2 = chunks" "len = 0" "\<not> length (hd chunks) \<le> width"
        by auto
      then have "long" "hd chunks \<noteq> []" using assms(1) by (auto simp: long_def)
      with rest c2 have "rest = drop (long_word_end width 0 (hd chunks)) (hd chunks) # tl chunks"
        by simp
      with chunks_size_drop_hd_less [OF assms(1) \<open>hd chunks \<noteq> []\<close> long_word_end_pos [of width "hd chunks"]]
      show ?thesis by simp
    qed
  qed
qed

text \<open>
  \<open>_wrap_chunks\<close>: the outer loop, with the lines produced so far. A line that is left
  empty is not added.
\<close>

function wrap_chunks :: "nat \<Rightarrow> string list \<Rightarrow> string list \<Rightarrow> string list" where
  "wrap_chunks width lines chunks =
     (if chunks = [] then lines
      else wrap_chunks width
             (if fst (wrap_line width (lines = []) chunks) \<noteq> []
                then lines @ [concat (fst (wrap_line width (lines = []) chunks))] else lines)
             (snd (wrap_line width (lines = []) chunks)))"
  by pat_completeness auto
termination
proof (relation "measure (\<lambda>(width, lines, chunks). chunks_size chunks)")
  show "wf (measure (\<lambda>(width, lines, chunks). chunks_size chunks))" by simp
next
  fix width :: nat and lines chunks :: "string list"
  assume "chunks \<noteq> []"
  then have "chunks_size (snd (wrap_line width (lines = []) chunks)) < chunks_size chunks"
    using wrap_line_decreases [of chunks width "lines = []"]
    by (cases "wrap_line width (lines = []) chunks") auto
  then show "((width,
         if fst (wrap_line width (lines = []) chunks) \<noteq> []
         then lines @ [concat (fst (wrap_line width (lines = []) chunks))] else lines,
         snd (wrap_line width (lines = []) chunks)),
        width, lines, chunks) \<in> measure (\<lambda>(width, lines, chunks). chunks_size chunks)"
    by simp
qed

declare wrap_chunks.simps [simp del]

text \<open>
  \<open>textwrap.wrap(text, width)\<close>; the width is positive at its only call, so the check of
  the width at the head of \<open>_wrap_chunks\<close> never raises.
\<close>

definition textwrap_wrap :: "nat \<Rightarrow> string \<Rightarrow> string list" where
  "textwrap_wrap width text = wrap_chunks width [] (tw_split [] (munge_whitespace text))"

section \<open>The renderer (renderer.py)\<close>

subsection \<open>What is drawn, and the world outside\<close>

text \<open>
  The figure has two axes, the map pane and the message pane. A call that draws on one of
  them, or on the figure, is kept as an entry of the canvas, with the arguments that matter
  for the layout: positions and sizes in axes coordinates, the text, the color (a value of the
  theme) and the font.
\<close>

datatype pane = MapAxes | MessageAxes | FigureLevel

datatype font = FontFile string nat | FontFamily string string nat

datatype artist =
    Subplots json
  | SubplotsAdjust
  | Facecolor json
  | AxisOff
  | Polygons "nat list" json nat
  | Roads "edge list" json "json list" "rat list"
  | GradientFade json "rat \<times> rat" "rat \<times> rat" nat
  | Text "rat \<times> rat" string json font
  | Line "rat list" "rat list" json rat
  | Rectangle "rat \<times> rat" rat rat json

type_synonym canvas = "(pane \<times> artist) list"

text \<open>What happens outside the program, in the order in which it happens.\<close>

datatype event = Sleep nat | Lookup string | WriteFile string string

type_synonym trace = "event list"

record datetime =
  dt_year :: nat
  dt_month :: nat
  dt_day :: nat
  dt_hour :: nat
  dt_minute :: nat
  dt_second :: nat

text \<open>
  The libraries and the world the program runs in. Every call into a library or the operating
  system may raise: the geocoding service answers a query with a location, with nothing, or
  with an exception; OSMnx answers with a graph or with features; \<open>reaction\<close> is what
  matplotlib does with a drawing call (\<open>None\<close> when it returns); \<open>savefig\<close> turns the canvas
  into the bytes of the image. \<open>fonts_found\<close> is whether \<open>load_fonts\<close> found the three font
  files when the module was loaded. \<open>upper\<close> is \<open>str.upper\<close>, whose results leave the code
  points below 256. The theme directory is absent, or holds files: a name and what opening
  and parsing the file yields. \<open>path_exists\<close> is \<open>Path.exists\<close> on the path of a file name
  under the theme directory, wherever that path resolves to: the operating system may refuse
  the path (a name that is too long, a directory that may not be searched), and then the
  check raises instead of answering. \<open>load_json\<close> is what opening that path and parsing its
  content yields.
\<close>

record env =
  fonts_found :: bool
  upper :: "string \<Rightarrow> string"
  geocode :: "string \<Rightarrow> exn + (pyfloat \<times> pyfloat) option"
  graph_from_point :: "pyfloat \<times> pyfloat \<Rightarrow> int \<Rightarrow> string \<Rightarrow> exn + edge list"
  features_from_point :: "pyfloat \<times> pyfloat \<Rightarrow> (string \<times> string) list \<Rightarrow> int \<Rightarrow> exn + nat list"
  reaction :: "pane \<Rightarrow> artist \<Rightarrow> exn option"
  savefig :: "canvas \<Rightarrow> nat \<Rightarrow> json \<Rightarrow> exn + string"
  now :: datetime
  themes_dir :: "(string \<times> (exn + json)) list option"
  path_exists :: "string \<Rightarrow> exn + bool"
  load_json :: "string \<Rightarrow> exn + json"
  mkdir_postcards :: "exn option"
  write_file :: "string \<Rightarrow> string \<Rightarrow> exn option"

text \<open>One drawing call, and a sequence of them with their arguments evaluated in turn.\<close>

definition draw :: "env \<Rightarrow> pane \<Rightarrow> artist \<Rightarrow> canvas \<Rightarrow> exn + canvas" where
  "draw env ax a cv = (case reaction env ax a of Some e \<Rightarrow> Inl e | None \<Rightarrow> Inr (cv @ [(ax, a)]))"

fun steps :: "env \<Rightarrow> pane \<Rightarrow> (exn + artist) list \<Rightarrow> canvas \<Rightarrow> exn + canvas" where
  "steps env ax [] cv = Inr cv"
| "steps env ax (Inl e # ss) cv = Inl e"
| "steps env ax (Inr a # ss) cv = thn (draw env ax a cv) (steps env ax ss)"

text \<open>An artist whose color is \<open>theme[k]\<close>.\<close>

definition with_key :: "json \<Rightarrow> string \<Rightarrow> (json \<Rightarrow> artist) \<Rightarrow> exn + artist" where
  "with_key theme k f = thn (subscript theme k) (\<lambda>c. Inr (f c))"

subsection \<open>\<open>get_coordinates\<close>\<close>

definition not_found_message :: "string \<Rightarrow> string \<Rightarrow> string" where
  "not_found_message city country = ''Could not find coordinates for '' @ city @ '', '' @ country"

definition get_coordinates ::
  "env \<Rightarrow> string \<Rightarrow> string \<Rightarrow> trace \<Rightarrow> (exn + pyfloat \<times> pyfloat) \<times> trace" where
  "get_coordinates env city country tr =
     (let tr1 = tr @ [Sleep 1];
          tr2 = tr1 @ [Lookup (city @ '', '' @ country)]
      in (case geocode env (city @ '', '' @ country) of
            Inl e \<Rightarrow> Inl e
          | Inr None \<Rightarrow> Inl (Exn ValueError (not_found_message city country))
          | Inr (Some location) \<Rightarrow> Inr location,
          tr2))"

subsection \<open>\<open>create_gradient_fade\<close>\<close>

text \<open>
  The fade covers the bottom quarter with alpha from 1 to 0, or the top quarter with alpha
  from 0 to 1, bottom to top.
\<close>

definition create_gradient_fade :: "json \<Rightarrow> string \<Rightarrow> nat \<Rightarrow> artist" where
  "create_gradient_fade color location zorder =
     (if location = ''bottom'' then GradientFade color (0, 25 / 100) (1, 0) zorder
      else GradientFade color (75 / 100, 1) (0, 1) zorder)"

subsection \<open>\<open>render_map_side\<close>\<close>

text \<open>The caption of the coordinates.\<close>

definition degree_sign :: string where
  "degree_sign = [CHR 0xB0]"

definition coords_caption :: "pyfloat \<times> pyfloat \<Rightarrow> string" where
  "coords_caption point =
     (let lat = fst point; lon = snd point;
          coords = (if ge0 lat then format_4f lat @ degree_sign @ '' N / '' @ format_4f lon @ degree_sign @ '' E''
                    else format_4f (py_abs lat) @ degree_sign @ '' S / '' @ format_4f lon @ degree_sign @ '' E'')
      in if lt0 lon then py_replace ''E'' ''W'' coords else coords)"

text \<open>\<open>"  ".join(list(s))\<close>\<close>

fun join_spaced :: "string \<Rightarrow> string" where
  "join_spaced [] = []"
| "join_spaced [c] = [c]"
| "join_spaced (c # cs) = c # CHR 0x20 # CHR 0x20 # join_spaced cs"

text \<open>A fetch of an optional layer: any exception leaves the layer absent.\<close>

definition fetch_layer ::
  "env \<Rightarrow> pyfloat \<times> pyfloat \<Rightarrow> (string \<times> string) list \<Rightarrow> int \<Rightarrow> nat list option" where
  "fetch_layer env point tags radius =
     (case features_from_point env point tags radius of Inl e \<Rightarrow> None | Inr features \<Rightarrow> Some features)"

definition water_tags :: "(string \<times> string) list" where
  "water_tags = [(''natural'', ''water''), (''waterway'', ''riverbank'')]"

definition parks_tags :: "(string \<times> string) list" where
  "parks_tags = [(''leisure'', ''park''), (''landuse'', ''grass'')]"

text \<open>\<open>if layer is not None and not layer.empty: layer.plot(...)\<close>\<close>

definition plot_layer :: "json \<Rightarrow> string \<Rightarrow> nat \<Rightarrow> nat list option \<Rightarrow> (exn + artist) list" where
  "plot_layer theme k zorder layer =
     (case layer of
        None \<Rightarrow> []
      | Some features \<Rightarrow>
          if features \<noteq> [] then [with_key theme k (\<lambda>c. Polygons features c zorder)] else [])"

text \<open>The part of \<open>render_map_side\<close> after the fetches, from \<open># Plot layers\<close> on.\<close>

definition draw_map ::
  "env \<Rightarrow> pane \<Rightarrow> string \<Rightarrow> string \<Rightarrow> pyfloat \<times> pyfloat \<Rightarrow> json \<Rightarrow> edge list
     \<Rightarrow> nat list option \<Rightarrow> nat list option \<Rightarrow> canvas \<Rightarrow> exn + canvas" where
  "draw_map env ax city country point theme G water parks cv =
     thn (steps env ax (plot_layer theme ''water'' 1 water @ plot_layer theme ''parks'' 2 parks) cv)
       (\<lambda>cv.
     thn (get_edge_colors_by_type G theme) (\<lambda>edge_colors.
     let edge_widths = get_edge_widths_by_type G;
         font_main = (if fonts_found env then FontFile ''Roboto-Bold.ttf'' 36
                      else FontFamily ''monospace'' ''bold'' 36);
         font_sub = (if fonts_found env then FontFile ''Roboto-Light.ttf'' 16
                     else FontFamily ''monospace'' ''normal'' 16);
         font_coords = (if fonts_found env then FontFile ''Roboto-Regular.ttf'' 10
                        else FontFamily ''monospace'' ''normal'' 10);
         spaced_city = join_spaced (upper env city)
     in steps env ax
          [with_key theme ''bg'' (\<lambda>bg. Roads G bg edge_colors edge_widths),
           with_key theme ''gradient_color'' (\<lambda>c. create_gradient_fade c ''bottom'' 10),
           with_key theme ''gradient_color'' (\<lambda>c. create_gradient_fade c ''top'' 10),
           with_key theme ''text'' (\<lambda>c. Text (5 / 10, 12 / 100) spaced_city c font_main),
           with_key theme ''text'' (\<lambda>c. Text (5 / 10, 8 / 100) (upper env country) c font_sub),
           with_key theme ''text'' (\<lambda>c. Text (5 / 10, 5 / 100) (coords_caption point) c font_coords),
           with_key theme ''text'' (\<lambda>c. Line [3 / 10, 7 / 10] [10 / 100, 10 / 100] c 1),
           Inr AxisOff]
          cv))"

definition render_map_side ::
  "env \<Rightarrow> pane \<Rightarrow> string \<Rightarrow> string \<Rightarrow> pyfloat \<times> pyfloat \<Rightarrow> int \<Rightarrow> json \<Rightarrow> bool
     \<Rightarrow> canvas \<Rightarrow> exn + canvas" where
  "render_map_side env ax city country point radius theme fast cv =
     thn (steps env ax [with_key theme ''bg'' Facecolor] cv) (\<lambda>cv.
     thn (graph_from_point env point radius (if fast then ''drive'' else ''all'')) (\<lambda>G.
     let water = (if \<not> fast then fetch_layer env point water_tags radius else None);
         parks = (if \<not> fast then fetch_layer env point parks_tags radius else None)
     in draw_map env ax city country point theme G water parks cv))"

subsection \<open>\<open>render_message_side\<close>\<close>

text \<open>The loop that wraps the paragraphs of the message.\<close>

fun wrap_paragraphs :: "string list \<Rightarrow> string list \<Rightarrow> string list" where
  "wrap_paragraphs [] wrapped_lines = wrapped_lines"
| "wrap_paragraphs (paragraph # ps) wrapped_lines =
     (if py_strip paragraph \<noteq> []
        then wrap_paragraphs ps (wrapped_lines @ textwrap_wrap 35 paragraph)
      else wrap_paragraphs ps (wrapped_lines @ [[]]))"

definition wrapped_lines :: "string \<Rightarrow> string list" where
  "wrapped_lines message = wrap_paragraphs (split_nl message) []"

definition attribution :: string where
  "attribution = CHR 0xA9 # '' OpenStreetMap contributors''"

definition render_message_side :: "env \<Rightarrow> pane \<Rightarrow> string \<Rightarrow> json \<Rightarrow> canvas \<Rightarrow> exn + canvas" where
  "render_message_side env ax message theme cv =
     thn (steps env ax [with_key theme ''bg'' Facecolor, Inr AxisOff] cv) (\<lambda>cv.
     if py_strip message = [] then Inr cv
     else
       let font_message = (if fonts_found env then FontFile ''Roboto-Regular.ttf'' 18
                           else FontFamily ''serif'' ''normal'' 18);
           wrapped_message = join_nl (wrapped_lines message);
           font_attr = (if fonts_found env then FontFile ''Roboto-Light.ttf'' 6
                        else FontFamily ''monospace'' ''normal'' 6)
       in steps env ax
            ([with_key theme ''text'' (\<lambda>c. Text (1 / 10, 85 / 100) wrapped_message c font_message),
              with_key theme ''text'' (\<lambda>c. Rectangle (7 / 10, 75 / 100) (2 / 10) (15 / 100) c),
              with_key theme ''text''
                (\<lambda>c. Text (8 / 10, 825 / 1000) ''STAMP'' c (FontFamily ''monospace'' ''normal'' 8))]
             @ map (\<lambda>y. with_key theme ''text'' (\<lambda>c. Line [1 / 10, 9 / 10] [y, y] c (5 / 10)))
                 [4 / 10, 32 / 100, 24 / 100, 16 / 100]
             @ [with_key theme ''text'' (\<lambda>c. Text (9 / 10, 3 / 100) attribution c font_attr)])
            cv)"

subsection \<open>\<open>create_postcard\<close>\<close>

definition create_postcard ::
  "env \<Rightarrow> string \<Rightarrow> string \<Rightarrow> pyfloat \<times> pyfloat \<Rightarrow> int \<Rightarrow> json \<Rightarrow> string \<Rightarrow> bool \<Rightarrow> exn + string" where
  "create_postcard env city country point radius theme message fast =
     thn (steps env FigureLevel [with_key theme ''bg'' Subplots, Inr SubplotsAdjust] []) (\<lambda>cv.
     thn (render_map_side env MapAxes city country point radius theme fast cv) (\<lambda>cv.
     thn (render_message_side env MessageAxes message theme cv) (\<lambda>cv.
     thn (steps env FigureLevel
            [with_key theme ''text'' (\<lambda>c. Line [5 / 10, 5 / 10] [5 / 100, 95 / 100] c (5 / 10))] cv)
       (\<lambda>cv.
     thn (subscript theme ''bg'') (\<lambda>bg. savefig env cv (if fast then 150 else 300) bg)))))"

section \<open>The routes (routes.py)\<close>

record request =
  req_city :: string
  req_country :: string
  req_theme :: string
  req_distance :: int
  req_message :: string
  req_fast :: bool

subsection \<open>\<open>list_themes\<close>\<close>

text \<open>\<open>THEMES_DIR.glob("*.json")\<close> takes the names that end in \<open>.json\<close>.\<close>

definition is_json_name :: "string \<Rightarrow> bool" where
  "is_json_name name \<longleftrightarrow> 5 \<le> length name \<and> drop (length name - 5) name = ''.json''"

text \<open>\<open>Path.stem\<close>: the name without its last suffix.\<close>

definition stem :: "string \<Rightarrow> string" where
  "stem name =
     (case rfind (CHR ''.'') name of
        None \<Rightarrow> name
      | Some i \<Rightarrow> if 0 < i \<and> i < length name - 1 then take i name else name)"

record summary =
  s_id :: string
  s_name :: json
  s_description :: json
  s_colors :: "(string \<times> json) list"

text \<open>The dict that the loop appends for a theme whose file was read.\<close>

definition summarise :: "string \<Rightarrow> json \<Rightarrow> exn + summary" where
  "summarise theme_name theme_data =
     thn (dict_get theme_data ''name'' (JStr theme_name)) (\<lambda>name.
     thn (dict_get theme_data ''description'' (JStr '''')) (\<lambda>description.
     thn (dict_get theme_data ''bg'' (JStr ''#FFFFFF'')) (\<lambda>bg.
     thn (dict_get theme_data ''text'' (JStr ''#000000'')) (\<lambda>text_color.
     thn (dict_get theme_data ''water'' (JStr ''#C0C0C0'')) (\<lambda>water.
     thn (dict_get theme_data ''parks'' (JStr ''#F0F0F0'')) (\<lambda>parks.
     thn (dict_get theme_data ''road_primary'' (JStr ''#333333'')) (\<lambda>road_primary.
     Inr \<lparr>s_id = theme_name, s_name = name, s_description = description,
          s_colors = [(''bg'', bg), (''text'', text_color), (''water'', water), (''parks'', parks),
                      (''road_primary'', road_primary)]\<rparr>)))))))"

text \<open>
  The loop over the sorted files. \<open>except Exception: continue\<close> skips the file; what is not
  an \<open>Exception\<close> ends the listing.
\<close>

fun themes_loop :: "(string \<times> (exn + json)) list \<Rightarrow> summary list \<Rightarrow> exn + summary list" where
  "themes_loop [] themes = Inr themes"
| "themes_loop ((theme_file, loaded) # fs) themes =
     (case thn loaded (summarise (stem theme_file)) of
        Inr s \<Rightarrow> themes_loop fs (themes @ [s])
      | Inl (Exn NonException m) \<Rightarrow> Inl (Exn NonException m)
      | Inl e \<Rightarrow> themes_loop fs themes)"

text \<open>
  \<open>sorted\<close> orders the paths of one directory by their names, compared by code points (the
  order of POSIX paths).
\<close>

definition list_themes :: "env \<Rightarrow> exn + summary list" where
  "list_themes env =
     (case themes_dir env of
        None \<Rightarrow> Inr []
      | Some files \<Rightarrow> themes_loop (sort_key fst (filter (\<lambda>f. is_json_name (fst f)) files)) [])"

subsection \<open>\<open>generate_postcard\<close>\<close>

datatype response = Success string string | HTTPException nat string | Unhandled exn

text \<open>
  \<open>datetime.now().strftime("%Y%m%d_%H%M%S")\<close>, for the years from 1000 on, which a clock of
  today gives: platforms differ on the padding of earlier years.
\<close>

definition strftime :: "datetime \<Rightarrow> string" where
  "strftime t =
     zpad 4 (dec (dt_year t)) @ zpad 2 (dec (dt_month t)) @ zpad 2 (dec (dt_day t)) @ ''_''
       @ zpad 2 (dec (dt_hour t)) @ zpad 2 (dec (dt_minute t)) @ zpad 2 (dec (dt_second t))"

definition city_slug :: "string \<Rightarrow> string" where
  "city_slug city = py_replace [CHR 0x27] [] (py_replace '' '' ''_'' (py_lower city))"

definition postcard_filename :: "env \<Rightarrow> request \<Rightarrow> string" where
  "postcard_filename env request =
     city_slug (req_city request) @ ''_'' @ req_theme request @ ''_'' @ strftime (now env) @ ''.png''"

text \<open>The body of the \<open>try\<close> statement: the file name and the URL, or the exception.\<close>

definition generation_block ::
  "env \<Rightarrow> request \<Rightarrow> json \<Rightarrow> trace \<Rightarrow> (exn + string \<times> string) \<times> trace" where
  "generation_block env request theme tr =
     (case get_coordinates env (req_city request) (req_country request) tr of
        (Inl e, tr1) \<Rightarrow> (Inl e, tr1)
      | (Inr coords, tr1) \<Rightarrow>
          (case create_postcard env (req_city request) (req_country request) coords
                  (req_distance request) theme (req_message request) (req_fast request) of
             Inl e \<Rightarrow> (Inl e, tr1)
           | Inr image_bytes \<Rightarrow>
               (case mkdir_postcards env of
                  Some e \<Rightarrow> (Inl e, tr1)
                | None \<Rightarrow>
                    let filename = postcard_filename env request in
                    (case write_file env filename image_bytes of
                       Some e \<Rightarrow> (Inl e, tr1)
                     | None \<Rightarrow>
                         (Inr (filename, ''/static/postcards/'' @ filename),
                          tr1 @ [WriteFile filename image_bytes])))))"

text \<open>The handlers of the \<open>try\<close> statement.\<close>

fun handle :: "exn + string \<times> string \<Rightarrow> response" where
  "handle (Inr (filename, url)) = Success filename url"
| "handle (Inl (Exn ValueError msg)) = HTTPException 400 msg"
| "handle (Inl (Exn OtherException msg)) = HTTPException 500 (''Failed to generate postcard: '' @ msg)"
| "handle (Inl (Exn NonException msg)) = Unhandled (Exn NonException msg)"

text \<open>
  The first lines of \<open>generate_postcard\<close>, before the \<open>try\<close> statement: the check
  \<open>theme_file.exists()\<close> raises, or answers that the file is absent, or that it is there, and
  then the file is opened and parsed, which may raise as well.
\<close>

definition theme_file :: "env \<Rightarrow> string \<Rightarrow> exn + (exn + json) option" where
  "theme_file env name =
     (case path_exists env name of
        Inl e \<Rightarrow> Inl e
      | Inr False \<Rightarrow> Inr None
      | Inr True \<Rightarrow> Inr (Some (load_json env name)))"

definition generate_postcard :: "env \<Rightarrow> request \<Rightarrow> trace \<Rightarrow> response \<times> trace" where
  "generate_postcard env request tr =
     (case theme_file env (req_theme request @ ''.json'') of
        Inl e \<Rightarrow> (Unhandled e, tr)
      | Inr None \<Rightarrow>
          (HTTPException 400 (''Theme '' @ [CHR 0x27] @ req_theme request @ [CHR 0x27] @ '' not found''), tr)
      | Inr (Some (Inl e)) \<Rightarrow> (Unhandled e, tr)
      | Inr (Some (Inr theme)) \<Rightarrow>
          (case generation_block env request theme tr of (r, tr1) \<Rightarrow> (handle r, tr1)))"

section \<open>A concrete world\<close>

text \<open>
  A theme, a theme directory, a request and a world in which every call succeeds, except the
  fetch of the water layer; the general statements below are instantiated on them.
\<close>

definition beige :: json where
  "beige = JObj [(''name'', JStr ''Warm Beige''), (''description'', JStr ''Earthy tones''),
     (''bg'', JStr ''#F5F0E8''), (''text'', JStr ''#3B2F2F''), (''gradient_color'', JStr ''#F5F0E8''),
     (''water'', JStr ''#A8C4C4''), (''parks'', JStr ''#C9D8B6''),
     (''road_motorway'', JStr ''#8B5A2B''), (''road_primary'', JStr ''#A0724A''),
     (''road_secondary'', JStr ''#B8916B''), (''road_tertiary'', JStr ''#C9A98A''),
     (''road_residential'', JStr ''#D9C5AE''), (''road_default'', JStr ''#D9C5AE'')]"

definition paris_graph :: "edge list" where
  "paris_graph = [(1, 2, [(''highway'', Str ''primary'')]),
     (2, 3, [(''highway'', Lst [''residential'', ''service''])]),
     (3, 1, [(''name'', Str ''Quai'')])]"

definition ascii_upper :: "string \<Rightarrow> string" where
  "ascii_upper s =
     map (\<lambda>c. if 97 \<le> (of_char c :: nat) \<and> (of_char c :: nat) \<le> 122
               then char_of ((of_char c :: nat) - 32) else c) s"

text \<open>
  The world, given the answer of the road network fetch and of the write of the image. Its
  file system refuses a file name of more than 255 characters, as Linux does: the existence
  check raises \<open>OSError\<close> there.
\<close>

definition demo_world ::
  "(pyfloat \<times> pyfloat \<Rightarrow> int \<Rightarrow> string \<Rightarrow> exn + edge list) \<Rightarrow> (string \<Rightarrow> string \<Rightarrow> exn option) \<Rightarrow> env" where
  "demo_world fetch_graph write = \<lparr>
     fonts_found = True,
     upper = ascii_upper,
     geocode = (\<lambda>q. if q = ''Paris, France''
                     then Inr (Some (Fin (488566 / 10000), Fin (23522 / 10000))) else Inr None),
     graph_from_point = fetch_graph,
     features_from_point = (\<lambda>point tags radius.
        if tags = water_tags then Inl (Exn ValueError ''No matching features'') else Inr [7]),
     reaction = (\<lambda>ax a. None),
     savefig = (\<lambda>cv dpi facecolor. Inr ''PNG''),
     now = \<lparr>dt_year = 2024, dt_month = 5, dt_day = 17, dt_hour = 9, dt_minute = 3, dt_second = 7\<rparr>,
     themes_dir = Some [(''warm_beige.json'', Inr beige),
                        (''broken.json'', Inl (Exn ValueError ''Expecting value: line 1 column 1 (char 0)'')),
                        (''a.json'', Inr (JObj [])), (''a-b.json'', Inr (JObj [])),
                        (''list.json'', Inr (JArr [])), (''notes.txt'', Inr JNull)],
     path_exists = (\<lambda>name.
        if 255 < length name then Inl (Exn OtherException ''[Errno 36] File name too long'')
        else Inr (name \<in> set [''warm_beige.json'', ''broken.json'', ''a.json'', ''a-b.json'',
                                 ''list.json'', ''notes.txt''])),
     load_json = (\<lambda>name.
        case map_of [(''warm_beige.json'', Inr beige),
                     (''broken.json'', Inl (Exn ValueError ''Expecting value: line 1 column 1 (char 0)'')),
                     (''a.json'', Inr (JObj [])), (''a-b.json'', Inr (JObj [])),
                     (''list.json'', Inr (JArr [])), (''notes.txt'', Inr JNull)] name of
          None \<Rightarrow> Inl (Exn OtherException ''[Errno 2] No such file or directory'')
        | Some loaded \<Rightarrow> loaded),
     mkdir_postcards = None,
     write_file = write\<rparr>"

definition paris_world :: env where
  "paris_world = demo_world (\<lambda>point radius network_type. Inr paris_graph) (\<lambda>filename png. None)"

text \<open>The same world when OSMnx finds no road, and when the disk cannot be written.\<close>

definition no_graph :: exn where
  "no_graph = Exn ValueError ''Found no graph nodes within the requested polygon''"




definition paris_request :: request where
  "paris_request = \<lparr>req_city = ''Paris'', req_country = ''France'', req_theme = ''warm_beige'',
     req_distance = 5000, req_message = ''Hello!'' @ [CHR 0x0A] @ ''Wish you were here.'',
     req_fast = False\<rparr>"

text \<open>The map pane of that world around a point, the water layer missing.\<close>

definition paris_canvas :: "pyfloat \<times> pyfloat \<Rightarrow> canvas" where
  "paris_canvas point =
     [(MapAxes, Facecolor (JStr ''#F5F0E8'')),
      (MapAxes, Polygons [7] (JStr ''#C9D8B6'') 2),
      (MapAxes, Roads paris_graph (JStr ''#F5F0E8'')
         [JStr ''#A0724A'', JStr ''#D9C5AE'', JStr ''#D9C5AE''] [10 / 10, 4 / 10, 4 / 10]),
      (MapAxes, GradientFade (JStr ''#F5F0E8'') (0, 25 / 100) (1, 0) 10),
      (MapAxes, GradientFade (JStr ''#F5F0E8'') (75 / 100, 1) (0, 1) 10),
      (MapAxes, Text (5 / 10, 12 / 100) (join_spaced (ascii_upper ''Paris'')) (JStr ''#3B2F2F'')
         (FontFile ''Roboto-Bold.ttf'' 36)),
      (MapAxes, Text (5 / 10, 8 / 100) (ascii_upper ''France'') (JStr ''#3B2F2F'')
         (FontFile ''Roboto-Light.ttf'' 16)),
      (MapAxes, Text (5 / 10, 5 / 100) (coords_caption point) (JStr ''#3B2F2F'')
         (FontFile ''Roboto-Regular.ttf'' 10)),
      (MapAxes, Line [3 / 10, 7 / 10] [10 / 100, 10 / 100] (JStr ''#3B2F2F'') 1),
      (MapAxes, AxisOff)]"

section \<open>Notions used in the statements\<close>

subsection \<open>The theme listing\<close>

text \<open>The summary of a theme file that was read as a JSON object, with the defaults.\<close>

definition field_or :: "(string \<times> json) list \<Rightarrow> string \<Rightarrow> json \<Rightarrow> json" where
  "field_or kvs k d = (case map_of kvs k of None \<Rightarrow> d | Some v \<Rightarrow> v)"

definition summary_of :: "string \<Rightarrow> (string \<times> json) list \<Rightarrow> summary" where
  "summary_of theme_id kvs =
     \<lparr>s_id = theme_id, s_name = field_or kvs ''name'' (JStr theme_id),
      s_description = field_or kvs ''description'' (JStr ''''),
      s_colors = [(''bg'', field_or kvs ''bg'' (JStr ''#FFFFFF'')),
                  (''text'', field_or kvs ''text'' (JStr ''#000000'')),
                  (''water'', field_or kvs ''water'' (JStr ''#C0C0C0'')),
                  (''parks'', field_or kvs ''parks'' (JStr ''#F0F0F0'')),
                  (''road_primary'', field_or kvs ''road_primary'' (JStr ''#333333''))]\<rparr>"

text \<open>What the listing keeps of a file: the summary when the file holds an object.\<close>

fun listed :: "string \<times> (exn + json) \<Rightarrow> summary option" where
  "listed (file_name, Inr (JObj kvs)) = Some (summary_of (stem file_name) kvs)"
| "listed (file_name, loaded) = None"

text \<open>An outcome that \<open>except Exception\<close> does not catch.\<close>

fun escapes :: "exn + json \<Rightarrow> bool" where
  "escapes (Inl (Exn NonException m)) = True"
| "escapes loaded = False"

subsection \<open>The word wrap\<close>

text \<open>
  A character is clean when it is a space or no white space at all: these are the characters
  of a text once \<open>textwrap\<close> has replaced the white space it knows, provided the text had no
  other white space. A chunk is uniform when it is a run of spaces or a run of characters
  that are no white space.
\<close>

definition clean :: "char \<Rightarrow> bool" where
  "clean c \<longleftrightarrow> c = CHR 0x20 \<or> \<not> py_isspace c"

definition uniform :: "string \<Rightarrow> bool" where
  "uniform ch \<longleftrightarrow> ch \<noteq> [] \<and> ((\<forall>x \<in> set ch. x = CHR 0x20) \<or> (\<forall>x \<in> set ch. \<not> py_isspace x))"

text \<open>No two neighbours in a list of chunks are both blank.\<close>

fun no_double :: "string list \<Rightarrow> bool" where
  "no_double (a # b # r) = (\<not> (py_strip a = [] \<and> py_strip b = []) \<and> no_double (b # r))"
| "no_double r = True"

definition chunks_ok :: "nat \<Rightarrow> string list \<Rightarrow> bool" where
  "chunks_ok w cs \<longleftrightarrow> (\<forall>ch \<in> set cs. uniform ch \<and> length ch \<le> w) \<and> no_double cs"

definition line_ok :: "nat \<Rightarrow> string \<Rightarrow> bool" where
  "line_ok w l \<longleftrightarrow> l \<noteq> [] \<and> length l \<le> w \<and> (\<forall>x \<in> set l. clean x) \<and> \<not> py_isspace (last l)"

text \<open>A message with a paragraph to wrap, a blank line, a tab and a hyphenated word.\<close>

definition greeting :: string where
  "greeting = ''Greetings from sunny Paris, where the well-known cafes never close an hour early.''
     @ [CHR 0x0A, CHR 0x0A] @ ''See you'' @ [CHR 0x09] @ ''soon!''"

section \<open>Styling: proofs\<close>

lemma edge_colors_loop_collect:
  "edge_colors_loop theme G acc =
     (case collect (map (\<lambda>(u, v, data). edge_color theme data) G) of
        Inl e \<Rightarrow> Inl e | Inr cs \<Rightarrow> Inr (acc @ cs))"
proof (induction G arbitrary: acc)
  case Nil
  show ?case by simp
next
  case (Cons e G)
  obtain u v data where e: "e = (u, v, data)" by (cases e)
  show ?case
  proof (cases "edge_color theme data")
    case (Inl x)
    then show ?thesis by (simp add: e)
  next
    case (Inr c)
    then show ?thesis
      by (simp add: e Cons.IH split: sum.splits)
  qed
qed

lemma edge_widths_loop_map:
  "edge_widths_loop G acc = acc @ map (\<lambda>(u, v, data). edge_width data) G"
  by (induction G arbitrary: acc) auto

lemma spec_tag_first:
  assumes "spec_tag (map_of data ''highway'') = Some t"
  shows "first_of_list (get_highway data) = t"
  using assms
  by (cases "map_of data ''highway''" rule: spec_tag.cases) (simp_all add: get_highway_def)

lemma edge_color_spec:
  assumes "spec_tag (map_of data ''highway'') = Some t"
  shows "edge_color theme data = subscript theme (spec_color_field (spec_class t))"
  using spec_tag_first [OF assms] by (simp add: edge_color_def spec_class_def)

lemma edge_width_spec:
  assumes "spec_tag (map_of data ''highway'') = Some t"
  shows "edge_width data = spec_width (spec_class t)"
  using spec_tag_first [OF assms] by (simp add: edge_width_def spec_class_def)

text \<open>
  C1. Both styling functions apply one function of the highway tag (and the theme) to every
  edge, in order. For a tag that is a string, the first element of a list, or
  \<open>unclassified\<close> for an absent tag, the color is the theme field of the tag's class in the
  precedence table and the width is the width of that class; an absent tag therefore gets the
  residential color and the width 0.4.
\<close>

theorem C1_styling_table:
  "get_edge_colors_by_type G theme = collect (map (\<lambda>(u, v, data). edge_color theme data) G)
   \<and> get_edge_widths_by_type G = map (\<lambda>(u, v, data). edge_width data) G
   \<and> (spec_tag (map_of data ''highway'') = Some t \<longrightarrow>
         edge_color theme data = subscript theme (spec_color_field (spec_class t))
         \<and> edge_width data = spec_width (spec_class t))
   \<and> (map_of data ''highway'' = None \<longrightarrow>
         edge_color theme data = subscript theme ''road_residential''
         \<and> edge_width data = 4 / 10)"
proof (intro conjI impI)
  show "get_edge_colors_by_type G theme = collect (map (\<lambda>(u, v, data). edge_color theme data) G)"
    by (simp add: get_edge_colors_by_type_def edge_colors_loop_collect split: sum.splits)
  show "get_edge_widths_by_type G = map (\<lambda>(u, v, data). edge_width data) G"
    by (simp add: get_edge_widths_by_type_def edge_widths_loop_map)
next
  assume "spec_tag (map_of data ''highway'') = Some t"
  then show "edge_color theme data = subscript theme (spec_color_field (spec_class t))"
    and "edge_width data = spec_width (spec_class t)"
    by (rule edge_color_spec, rule edge_width_spec)
next
  assume "map_of data ''highway'' = None"
  then show "edge_color theme data = subscript theme ''road_residential''"
    and "edge_width data = 4 / 10"
    by (simp_all add: edge_color_def edge_width_def get_highway_def)
qed

theorem C1_styling_table_witness:
  "spec_tag (map_of [(''highway'', Lst [''motorway_link'', ''primary''])] ''highway'') = Some ''motorway_link''
   \<and> edge_color beige [(''highway'', Lst [''motorway_link'', ''primary''])] = Inr (JStr ''#8B5A2B'')
   \<and> edge_width [(''highway'', Lst [''motorway_link'', ''primary''])] = 12 / 10
   \<and> map_of [(''name'', Str ''Quai'')] ''highway'' = None
   \<and> edge_color beige [(''name'', Str ''Quai'')] = Inr (JStr ''#D9C5AE'')
   \<and> edge_width [(''name'', Str ''Quai'')] = 4 / 10
   \<and> get_edge_widths_by_type paris_graph = [10 / 10, 4 / 10, 4 / 10]"
proof -
  let ?d = "[(''highway'', Lst [''motorway_link'', ''primary''])]"
  let ?n = "[(''name'', Str ''Quai'')]"
  have t: "spec_tag (map_of ?d ''highway'') = Some ''motorway_link''" by simp
  have n: "map_of ?n ''highway'' = None" by simp
  note a = C1_styling_table [of "[]" beige ?d "''motorway_link''",
      THEN conjunct2, THEN conjunct2, THEN conjunct1, THEN mp, OF t]
  note b = C1_styling_table [of "[]" beige ?n "''motorway_link''",
      THEN conjunct2, THEN conjunct2, THEN conjunct2, THEN mp, OF n]
  note c = C1_styling_table [of paris_graph beige ?n "''motorway_link''",
      THEN conjunct2, THEN conjunct1]
  have w: "map (\<lambda>(u, v, data). edge_width data) paris_graph = [10 / 10, 4 / 10, 4 / 10]"
    by (simp add: paris_graph_def edge_width_def get_highway_def)
  from a b c t n w show ?thesis
    by (simp add: spec_class_def beige_def)
qed

section \<open>Strings: proofs\<close>

lemma py_strip_blank: "py_strip s = [] \<longleftrightarrow> (\<forall>c \<in> set s. py_isspace c)"
proof
  assume "py_strip s = []"
  then have "dropWhile py_isspace (rev (dropWhile py_isspace s)) = []"
    by (simp add: py_strip_def)
  then have "\<forall>c \<in> set (dropWhile py_isspace s). py_isspace c"
    by (simp add: dropWhile_eq_Nil_conv)
  moreover have "\<forall>c \<in> set (takeWhile py_isspace s). py_isspace c"
    by (auto dest: set_takeWhileD)
  ultimately show "\<forall>c \<in> set s. py_isspace c"
    by (metis UnE set_append takeWhile_dropWhile_id)
next
  assume "\<forall>c \<in> set s. py_isspace c"
  then have d: "dropWhile py_isspace s = []"
    by (simp add: dropWhile_eq_Nil_conv)
  show "py_strip s = []"
    by (simp only: py_strip_def d rev.simps dropWhile.simps)
qed


section \<open>The generation endpoint: proofs\<close>

lemma thn_simps [simp]:
  "thn (Inl e) f = Inl e"
  "thn (Inr x) f = f x"
  by (simp_all add: thn_def)

lemma get_coordinates_trace:
  "snd (get_coordinates env city country tr) = tr @ [Sleep 1, Lookup (city @ '', '' @ country)]"
  by (simp add: get_coordinates_def Let_def)

lemma get_coordinates_result:
  "fst (get_coordinates env city country tr) =
     (case geocode env (city @ '', '' @ country) of
        Inl e \<Rightarrow> Inl e
      | Inr None \<Rightarrow> Inl (Exn ValueError (not_found_message city country))
      | Inr (Some location) \<Rightarrow> Inr location)"
  by (simp add: get_coordinates_def Let_def)

lemma generation_block_geocode_fails:
  assumes "fst (get_coordinates env (req_city request) (req_country request) tr) = Inl e"
  shows "fst (generation_block env request theme tr) = Inl e"
  using assms
  by (cases "get_coordinates env (req_city request) (req_country request) tr")
     (simp add: generation_block_def)



lemma generation_block_success:
  assumes "fst (generation_block env request theme tr) = Inr (filename, url)"
  shows "filename = postcard_filename env request \<and> url = ''/static/postcards/'' @ filename
    \<and> (\<exists>png. snd (generation_block env request theme tr)
          = tr @ [Sleep 1, Lookup (req_city request @ '', '' @ req_country request),
                  WriteFile filename png])"
proof -
  obtain r tr1 where g: "get_coordinates env (req_city request) (req_country request) tr = (r, tr1)"
    by (cases "get_coordinates env (req_city request) (req_country request) tr")
  have tr1: "tr1 = tr @ [Sleep 1, Lookup (req_city request @ '', '' @ req_country request)]"
    using get_coordinates_trace [of env "req_city request" "req_country request" tr] g by simp
  show ?thesis
    using assms g tr1
    by (auto simp: generation_block_def Let_def split: sum.splits option.splits)
qed

lemma generate_postcard_response:
  assumes "theme_file env (req_theme request @ ''.json'') = Inr (Some (Inr theme))"
  shows "fst (generate_postcard env request tr) = handle (fst (generation_block env request theme tr))"
  using assms by (simp add: generate_postcard_def split: prod.splits)

lemma generate_postcard_trace:
  assumes "theme_file env (req_theme request @ ''.json'') = Inr (Some (Inr theme))"
  shows "snd (generate_postcard env request tr) = snd (generation_block env request theme tr)"
  using assms by (simp add: generate_postcard_def split: prod.splits)

text \<open>
  The existence check runs before the \<open>try\<close> statement: what it raises reaches no handler of
  the endpoint, and neither does what opening and parsing the theme file raises.
\<close>

lemma theme_file_absent:
  "theme_file env name = Inr None \<longleftrightarrow> path_exists env name = Inr False"
  by (auto simp: theme_file_def split: sum.splits bool.splits)

lemma theme_file_present:
  "theme_file env name = Inr (Some loaded)
     \<longleftrightarrow> path_exists env name = Inr True \<and> load_json env name = loaded"
  by (auto simp: theme_file_def split: sum.splits bool.splits)

lemma theme_file_raises:
  "theme_file env name = Inl e \<longleftrightarrow> path_exists env name = Inl e"
  by (auto simp: theme_file_def split: sum.splits bool.splits)

lemma generate_postcard_exists_raises:
  assumes "path_exists env (req_theme request @ ''.json'') = Inl e"
  shows "generate_postcard env request tr = (Unhandled e, tr)"
  using assms by (simp add: generate_postcard_def theme_file_def)

lemma generate_postcard_load_raises:
  assumes "path_exists env (req_theme request @ ''.json'') = Inr True"
    and "load_json env (req_theme request @ ''.json'') = Inl e"
  shows "generate_postcard env request tr = (Unhandled e, tr)"
  using assms by (simp add: generate_postcard_def theme_file_def)

lemma generate_postcard_success:
  assumes "fst (generate_postcard env request tr) = Success filename url"
  shows "\<exists>theme. theme_file env (req_theme request @ ''.json'') = Inr (Some (Inr theme))
    \<and> fst (generation_block env request theme tr) = Inr (filename, url)"
proof -
  from assms obtain theme where
    tf: "theme_file env (req_theme request @ ''.json'') = Inr (Some (Inr theme))"
    by (auto simp: generate_postcard_def split: sum.splits option.splits)
  from assms generate_postcard_response [OF tf]
  have "handle (fst (generation_block env request theme tr)) = Success filename url" by simp
  then have "fst (generation_block env request theme tr) = Inr (filename, url)"
    by (cases "fst (generation_block env request theme tr)" rule: handle.cases) simp_all
  with tf show ?thesis by blast
qed

subsection \<open>The concrete world\<close>

lemma demo_theme_file:
  "theme_file (demo_world g w) ''warm_beige.json'' = Inr (Some (Inr beige))"
  "theme_file (demo_world g w) ''does_not_exist.json'' = Inr None"
  by (simp_all add: theme_file_def demo_world_def)

lemma demo_long_theme:
  "generate_postcard (demo_world g w) (paris_request\<lparr>req_theme := replicate 251 (CHR ''a'')\<rparr>) tr
     = (Unhandled (Exn OtherException ''[Errno 36] File name too long''), tr)"
  by (simp add: generate_postcard_exists_raises demo_world_def)

lemma demo_create_postcard:
  "create_postcard (demo_world (\<lambda>point radius network_type. Inr paris_graph) w)
     city country point radius beige message fast = Inr ''PNG''"
  by (simp add: create_postcard_def render_map_side_def draw_map_def render_message_side_def
      with_key_def draw_def demo_world_def beige_def plot_layer_def fetch_layer_def
      get_edge_colors_by_type_def paris_graph_def edge_color_def get_highway_def
      water_tags_def parks_tags_def Let_def)


lemma demo_get_coordinates:
  "fst (get_coordinates (demo_world g w) ''Paris'' ''France'' tr)
     = Inr (Fin (488566 / 10000), Fin (23522 / 10000))"
  "fst (get_coordinates (demo_world g w) ''Xyzzy'' ''France'' tr)
     = Inl (Exn ValueError (not_found_message ''Xyzzy'' ''France''))"
  by (simp_all add: get_coordinates_result demo_world_def)

lemma demo_filename:
  "postcard_filename (demo_world g w) paris_request = ''paris_warm_beige_20240517_090307.png''"
proof -
  have "postcard_filename paris_world paris_request = ''paris_warm_beige_20240517_090307.png''"
    by code_simp
  then show ?thesis
    by (simp add: postcard_filename_def paris_world_def demo_world_def)
qed

lemma paris_generation:
  "generation_block paris_world paris_request beige [] =
     (Inr (''paris_warm_beige_20240517_090307.png'',
           ''/static/postcards/paris_warm_beige_20240517_090307.png''),
      [Sleep 1, Lookup ''Paris, France'', WriteFile ''paris_warm_beige_20240517_090307.png'' ''PNG''])"
proof -
  have g: "get_coordinates paris_world ''Paris'' ''France'' []
      = (Inr (Fin (488566 / 10000), Fin (23522 / 10000)), [Sleep 1, Lookup ''Paris, France''])"
    using demo_get_coordinates(1) [of _ _ "[]"] get_coordinates_trace [of paris_world "''Paris''" "''France''" "[]"]
    by (simp add: paris_world_def prod_eq_iff)
  have c: "create_postcard paris_world ''Paris'' ''France'' (Fin (488566 / 10000), Fin (23522 / 10000))
      5000 beige (''Hello!'' @ [CHR 0x0A] @ ''Wish you were here.'') False = Inr ''PNG''"
    unfolding paris_world_def by (rule demo_create_postcard)
  have f: "postcard_filename paris_world paris_request = ''paris_warm_beige_20240517_090307.png''"
    unfolding paris_world_def by (rule demo_filename)
  have m: "mkdir_postcards paris_world = None" "write_file paris_world = (\<lambda>filename png. None)"
    by (simp_all add: paris_world_def demo_world_def)
  have r: "req_city paris_request = ''Paris''" "req_country paris_request = ''France''"
    "req_distance paris_request = 5000" "req_fast paris_request = False"
    "req_message paris_request = ''Hello!'' @ [CHR 0x0A] @ ''Wish you were here.''"
    by (simp_all add: paris_request_def)
  show ?thesis
    unfolding generation_block_def r g using c f m by (simp add: Let_def)
qed



subsection \<open>C2: the error responses\<close>




subsection \<open>C10: every \<open>ValueError\<close> is a 400\<close>



subsection \<open>C5: the geocoder adapter\<close>

text \<open>
  C5. \<open>get_coordinates\<close> sleeps one second and then issues the lookup of
  \<open>"<city>, <country>"\<close>, whatever the outcome. It returns the latitude and longitude of a
  match; it raises the not-found \<open>ValueError\<close>, whose message names the city and the country,
  when the service returns no match, and only then among the answers of the service; an
  exception of the service itself propagates. The endpoint answers the not-found error with
  400 and that message.
\<close>

theorem C5_geocoder:
  "snd (get_coordinates env city country tr) = tr @ [Sleep 1, Lookup (city @ '', '' @ country)]
   \<and> (geocode env (city @ '', '' @ country) = Inr (Some (lat, lon)) \<longrightarrow>
        fst (get_coordinates env city country tr) = Inr (lat, lon))
   \<and> (geocode env (city @ '', '' @ country) = Inr None \<longrightarrow>
        fst (get_coordinates env city country tr)
          = Inl (Exn ValueError (''Could not find coordinates for '' @ city @ '', '' @ country)))
   \<and> (geocode env (city @ '', '' @ country) = Inr answer \<longrightarrow>
        (fst (get_coordinates env city country tr)
           = Inl (Exn ValueError (''Could not find coordinates for '' @ city @ '', '' @ country))
         \<longleftrightarrow> answer = None))
   \<and> (geocode env (city @ '', '' @ country) = Inl e \<longrightarrow>
        fst (get_coordinates env city country tr) = Inl e)
   \<and> (theme_file env (req_theme request @ ''.json'') = Inr (Some (Inr theme))
       \<and> geocode env (req_city request @ '', '' @ req_country request) = Inr None \<longrightarrow>
        fst (generate_postcard env request tr)
          = HTTPException 400 (''Could not find coordinates for '' @ req_city request @ '', ''
                                 @ req_country request))"
proof (intro conjI impI)
  show "snd (get_coordinates env city country tr) = tr @ [Sleep 1, Lookup (city @ '', '' @ country)]"
    by (rule get_coordinates_trace)
next
  assume "geocode env (city @ '', '' @ country) = Inr (Some (lat, lon))"
  then show "fst (get_coordinates env city country tr) = Inr (lat, lon)"
    by (simp add: get_coordinates_result)
next
  assume "geocode env (city @ '', '' @ country) = Inr None"
  then show "fst (get_coordinates env city country tr)
      = Inl (Exn ValueError (''Could not find coordinates for '' @ city @ '', '' @ country))"
    by (simp add: get_coordinates_result not_found_message_def)
next
  assume "geocode env (city @ '', '' @ country) = Inr answer"
  then show "fst (get_coordinates env city country tr)
        = Inl (Exn ValueError (''Could not find coordinates for '' @ city @ '', '' @ country))
      \<longleftrightarrow> answer = None"
    by (cases answer) (simp_all add: get_coordinates_result not_found_message_def)
next
  assume "geocode env (city @ '', '' @ country) = Inl e"
  then show "fst (get_coordinates env city country tr) = Inl e"
    by (simp add: get_coordinates_result)
next
  assume a: "theme_file env (req_theme request @ ''.json'') = Inr (Some (Inr theme))
    \<and> geocode env (req_city request @ '', '' @ req_country request) = Inr None"
  then have "fst (get_coordinates env (req_city request) (req_country request) tr)
      = Inl (Exn ValueError (not_found_message (req_city request) (req_country request)))"
    by (simp add: get_coordinates_result)
  from generation_block_geocode_fails [OF this] a
  show "fst (generate_postcard env request tr)
      = HTTPException 400 (''Could not find coordinates for '' @ req_city request @ '', ''
                             @ req_country request)"
    by (simp add: generate_postcard_response not_found_message_def)
qed

theorem C5_geocoder_witness:
  "geocode paris_world (''Paris'' @ '', '' @ ''France'')
       = Inr (Some (Fin (488566 / 10000), Fin (23522 / 10000)))
   \<and> get_coordinates paris_world ''Paris'' ''France'' []
       = (Inr (Fin (488566 / 10000), Fin (23522 / 10000)), [Sleep 1, Lookup ''Paris, France''])
   \<and> geocode paris_world (''Xyzzy'' @ '', '' @ ''Qwerty'') = Inr None
   \<and> get_coordinates paris_world ''Xyzzy'' ''Qwerty'' []
       = (Inl (Exn ValueError ''Could not find coordinates for Xyzzy, Qwerty''),
          [Sleep 1, Lookup ''Xyzzy, Qwerty''])
   \<and> theme_file paris_world (req_theme paris_request @ ''.json'') = Inr (Some (Inr beige))
   \<and> fst (generate_postcard paris_world
             (paris_request\<lparr>req_city := ''Xyzzy'', req_country := ''Qwerty''\<rparr>) [])
       = HTTPException 400 ''Could not find coordinates for Xyzzy, Qwerty''"
proof -
  let ?r = "paris_request\<lparr>req_city := ''Xyzzy'', req_country := ''Qwerty''\<rparr>"
  have h1: "geocode paris_world (''Paris'' @ '', '' @ ''France'')
      = Inr (Some (Fin (488566 / 10000), Fin (23522 / 10000)))"
    by (simp add: paris_world_def demo_world_def)
  have h2: "geocode paris_world (''Xyzzy'' @ '', '' @ ''Qwerty'') = Inr None"
    by (simp add: paris_world_def demo_world_def)
  have h3: "theme_file paris_world (req_theme ?r @ ''.json'') = Inr (Some (Inr beige))
      \<and> geocode paris_world (req_city ?r @ '', '' @ req_country ?r) = Inr None"
    using h2 by (simp add: paris_world_def demo_theme_file paris_request_def)
  note t = C5_geocoder [of paris_world "''Paris''" "''France''" "[]" "Fin (488566 / 10000)"
      "Fin (23522 / 10000)" None no_graph ?r beige]
  note u = C5_geocoder [of paris_world "''Xyzzy''" "''Qwerty''" "[]" "Fin (488566 / 10000)"
      "Fin (23522 / 10000)" None no_graph ?r beige]
  note a = t [THEN conjunct1]
  note b = t [THEN conjunct2, THEN conjunct1, THEN mp, OF h1]
  note c = u [THEN conjunct1]
  note d = u [THEN conjunct2, THEN conjunct2, THEN conjunct1, THEN mp, OF h2]
  note e = u [THEN conjunct2, THEN conjunct2, THEN conjunct2, THEN conjunct2, THEN conjunct2,
      THEN mp, OF h3]
  from a b c d e h1 h2 h3 show ?thesis
    by (simp add: prod_eq_iff paris_request_def)
qed

subsection \<open>C8: the name of the output file\<close>

lemma py_replace_char:
  "py_replace [a] new s = concat (map (\<lambda>c. if c = a then new else [c]) s)"
  by (induction s) simp_all

lemma lower_char_code:
  "(of_char (lower_char c) :: nat) =
     (if (65 \<le> (of_char c :: nat) \<and> (of_char c :: nat) \<le> 90)
         \<or> (192 \<le> (of_char c :: nat) \<and> (of_char c :: nat) \<le> 222 \<and> (of_char c :: nat) \<noteq> 215)
      then of_char c + 32 else of_char c)"
  by (auto simp: lower_char_def Let_def)

lemma lower_char_space: "lower_char c = CHR '' '' \<longleftrightarrow> c = CHR '' ''"
proof -
  have "lower_char c = CHR '' '' \<longleftrightarrow> (of_char (lower_char c) :: nat) = of_char (CHR '' '')"
    by (simp only: of_char_eq_iff)
  also have "\<dots> \<longleftrightarrow> (of_char c :: nat) = of_char (CHR '' '')"
    by (auto simp: lower_char_code)
  also have "\<dots> \<longleftrightarrow> c = CHR '' ''"
    by (simp only: of_char_eq_iff)
  finally show ?thesis .
qed

lemma lower_char_apostrophe: "lower_char c = CHR 0x27 \<longleftrightarrow> c = CHR 0x27"
proof -
  have "lower_char c = CHR 0x27 \<longleftrightarrow> (of_char (lower_char c) :: nat) = of_char (CHR 0x27)"
    by (simp only: of_char_eq_iff)
  also have "\<dots> \<longleftrightarrow> (of_char c :: nat) = of_char (CHR 0x27)"
    by (auto simp: lower_char_code)
  also have "\<dots> \<longleftrightarrow> c = CHR 0x27"
    by (simp only: of_char_eq_iff)
  finally show ?thesis .
qed

lemma city_slug_chars:
  "city_slug city =
     map (\<lambda>c. if c = CHR '' '' then CHR ''_'' else lower_char c) (filter (\<lambda>c. c \<noteq> CHR 0x27) city)"
  unfolding city_slug_def py_lower_def py_replace_char
  by (induction city) (simp_all add: lower_char_space lower_char_apostrophe)

lemma length_dec_10: "n < 10 \<Longrightarrow> length (dec n) = 1"
  by (simp add: dec.simps [of n])

lemma length_dec_100: "n < 100 \<Longrightarrow> length (dec n) \<le> 2"
  by (subst dec.simps) (simp add: length_dec_10)

lemma length_dec_10000: "1000 \<le> n \<Longrightarrow> n < 10000 \<Longrightarrow> length (dec n) = 4"
proof -
  assume a: "1000 \<le> n" "n < 10000"
  have b: "\<not> n < 10" "\<not> n div 10 < 10" "\<not> n div 10 div 10 < 10" "n div 10 div 10 div 10 < 10"
    using a by arith+
  have 1: "dec n = dec (n div 10) @ [digit_char (n mod 10)]"
    using b by (simp add: dec.simps [of n])
  have 2: "dec (n div 10) = dec (n div 10 div 10) @ [digit_char (n div 10 mod 10)]"
    using b(2) by (subst dec.simps) (simp only: if_False)
  have 3: "dec (n div 10 div 10) = dec (n div 10 div 10 div 10) @ [digit_char (n div 10 div 10 mod 10)]"
    using b(3) by (subst dec.simps) (simp only: if_False)
  have "length (dec (n div 10 div 10 div 10)) = 1"
    using b(4) by (rule length_dec_10)
  with 1 2 3 show ?thesis by simp
qed

lemma length_zpad2: "n < 100 \<Longrightarrow> length (zpad 2 (dec n)) = 2"
  using length_dec_100 [of n] by (simp add: zpad_def)

lemma length_zpad4: "1000 \<le> n \<Longrightarrow> n < 10000 \<Longrightarrow> length (zpad 4 (dec n)) = 4"
  by (simp add: zpad_def length_dec_10000)

lemma length_strftime:
  assumes "1000 \<le> dt_year t" "dt_year t < 10000" "dt_month t < 100" "dt_day t < 100"
    "dt_hour t < 100" "dt_minute t < 100" "dt_second t < 100"
  shows "length (strftime t) = 15"
  using assms by (simp add: strftime_def length_zpad2 length_zpad4)

text \<open>
  C8. A successful request returns, and writes, the file named
  \<open><city_slug>_<theme>_<timestamp>.png\<close>: the slug is the city in lower case with every space
  turned into an underscore and every apostrophe removed, the theme is the identifier of the
  request, and the timestamp is year, month, day, an underscore, hour, minute and second of
  the clock, fifteen characters for a date of four digits.
\<close>

theorem C8_filename:
  assumes "fst (generate_postcard env request tr) = Success filename url"
  shows "filename = city_slug (req_city request) @ ''_'' @ req_theme request @ ''_''
           @ strftime (now env) @ ''.png''
    \<and> city_slug (req_city request)
        = map (\<lambda>c. if c = CHR '' '' then CHR ''_'' else lower_char c)
            (filter (\<lambda>c. c \<noteq> CHR 0x27) (req_city request))
    \<and> strftime (now env)
        = zpad 4 (dec (dt_year (now env))) @ zpad 2 (dec (dt_month (now env)))
            @ zpad 2 (dec (dt_day (now env))) @ ''_'' @ zpad 2 (dec (dt_hour (now env)))
            @ zpad 2 (dec (dt_minute (now env))) @ zpad 2 (dec (dt_second (now env)))
    \<and> (1000 \<le> dt_year (now env) \<and> dt_year (now env) < 10000 \<and> dt_month (now env) < 100
         \<and> dt_day (now env) < 100 \<and> dt_hour (now env) < 100 \<and> dt_minute (now env) < 100
         \<and> dt_second (now env) < 100 \<longrightarrow> length (strftime (now env)) = 15)
    \<and> url = ''/static/postcards/'' @ filename
    \<and> (\<exists>png. WriteFile filename png \<in> set (snd (generate_postcard env request tr)))"
proof -
  from generate_postcard_success [OF assms] obtain theme where
    tf: "theme_file env (req_theme request @ ''.json'') = Inr (Some (Inr theme))"
    and g: "fst (generation_block env request theme tr) = Inr (filename, url)"
    by blast
  from generation_block_success [OF g] obtain png where
    f: "filename = postcard_filename env request" "url = ''/static/postcards/'' @ filename"
    and w: "snd (generation_block env request theme tr)
      = tr @ [Sleep 1, Lookup (req_city request @ '', '' @ req_country request), WriteFile filename png]"
    by blast
  have "WriteFile filename png \<in> set (snd (generate_postcard env request tr))"
    using w generate_postcard_trace [OF tf, of tr] by simp
  then have "\<exists>png. WriteFile filename png \<in> set (snd (generate_postcard env request tr))" ..
  with f show ?thesis
    by (simp add: postcard_filename_def city_slug_chars [symmetric] length_strftime)
       (simp add: strftime_def)
qed

theorem C8_filename_witness:
  "fst (generate_postcard paris_world paris_request [])
     = Success ''paris_warm_beige_20240517_090307.png''
         ''/static/postcards/paris_warm_beige_20240517_090307.png''
   \<and> ''paris_warm_beige_20240517_090307.png''
     = city_slug ''Paris'' @ ''_'' @ ''warm_beige'' @ ''_'' @ strftime (now paris_world) @ ''.png''
   \<and> length (strftime (now paris_world)) = 15
   \<and> city_slug ''St. John's'' = ''st._johns''"
proof -
  have tf: "theme_file paris_world (req_theme paris_request @ ''.json'') = Inr (Some (Inr beige))"
    by (simp add: paris_world_def demo_theme_file paris_request_def)
  have h: "fst (generate_postcard paris_world paris_request [])
     = Success ''paris_warm_beige_20240517_090307.png''
         ''/static/postcards/paris_warm_beige_20240517_090307.png''"
    using generate_postcard_response [OF tf, of "[]"] paris_generation by simp
  have n: "1000 \<le> dt_year (now paris_world) \<and> dt_year (now paris_world) < 10000
      \<and> dt_month (now paris_world) < 100 \<and> dt_day (now paris_world) < 100
      \<and> dt_hour (now paris_world) < 100 \<and> dt_minute (now paris_world) < 100
      \<and> dt_second (now paris_world) < 100"
    by (simp add: paris_world_def demo_world_def)
  have s: "city_slug ''St. John's'' = ''st._johns''"
    by code_simp
  note t = C8_filename [OF h]
  note a = t [THEN conjunct1]
  note b = t [THEN conjunct2, THEN conjunct2, THEN conjunct2, THEN conjunct1, THEN mp, OF n]
  from a b h s show ?thesis
    by (simp add: paris_request_def)
qed

section \<open>The renderer: proofs\<close>

lemma steps_Inr:
  "steps env ax ss cv = Inr cv' \<Longrightarrow> \<exists>as. ss = map Inr as \<and> cv' = cv @ map (Pair ax) as"
proof (induction ss arbitrary: cv)
  case Nil
  then show ?case by simp
next
  case (Cons s ss)
  show ?case
  proof (cases s)
    case (Inl e)
    with Cons.prems show ?thesis by simp
  next
    case (Inr a)
    with Cons.prems obtain cv1 where d: "draw env ax a cv = Inr cv1"
      and r: "steps env ax ss cv1 = Inr cv'"
      by (cases "draw env ax a cv") simp_all
    from d have cv1: "cv1 = cv @ [(ax, a)]"
      by (simp add: draw_def split: option.splits)
    from Cons.IH [OF r] obtain as where "ss = map Inr as" "cv' = cv1 @ map (Pair ax) as"
      by (elim exE conjE)
    with Inr cv1 have "s # ss = map Inr (a # as) \<and> cv' = cv @ map (Pair ax) (a # as)"
      by simp
    then show ?thesis by (rule exI [of _ "a # as"])
  qed
qed

lemma with_key_Inr: "with_key theme k f = Inr a \<Longrightarrow> \<exists>c. subscript theme k = Inr c \<and> a = f c"
  by (cases "subscript theme k") (simp_all add: with_key_def)

subsection \<open>C3: a blank message\<close>

text \<open>
  C3, as stated, fails: on a blank message \<open>render_message_side\<close> returns right after setting
  the background and turning the axes off, so the stamp, the address lines and the
  attribution are not drawn either.
\<close>

theorem C3_counterexample:
  "render_message_side paris_world MessageAxes [] beige []
     = Inr [(MessageAxes, Facecolor (JStr ''#F5F0E8'')), (MessageAxes, AxisOff)]
   \<and> (MessageAxes, Text (8 / 10, 825 / 1000) ''STAMP'' (JStr ''#3B2F2F'')
         (FontFamily ''monospace'' ''normal'' 8))
       \<notin> set [(MessageAxes, Facecolor (JStr ''#F5F0E8'')), (MessageAxes, AxisOff)]
   \<and> (MessageAxes, Text (9 / 10, 3 / 100) attribution (JStr ''#3B2F2F'') (FontFile ''Roboto-Light.ttf'' 6))
       \<notin> set [(MessageAxes, Facecolor (JStr ''#F5F0E8'')), (MessageAxes, AxisOff)]"
  by (simp add: render_message_side_def with_key_def draw_def paris_world_def demo_world_def
      beige_def py_strip_def)

text \<open>
  C3, amended. For every message that consists of white space only, the empty one included,
  the message pane gets its background color and its axes turned off, and nothing else: no
  wrapped text and no decoration.
\<close>

theorem C3_blank_message:
  assumes "\<forall>c \<in> set message. py_isspace c"
  shows "render_message_side env ax message theme cv
           = steps env ax [with_key theme ''bg'' Facecolor, Inr AxisOff] cv
    \<and> (render_message_side env ax message theme cv = Inr cv' \<longrightarrow>
         (\<exists>bg. subscript theme ''bg'' = Inr bg \<and> cv' = cv @ [(ax, Facecolor bg), (ax, AxisOff)]))"
proof -
  from assms have b: "py_strip message = []" by (simp add: py_strip_blank)
  have eq: "render_message_side env ax message theme cv
      = steps env ax [with_key theme ''bg'' Facecolor, Inr AxisOff] cv"
    by (cases "steps env ax [with_key theme ''bg'' Facecolor, Inr AxisOff] cv")
       (simp_all add: render_message_side_def b)
  have "\<exists>bg. subscript theme ''bg'' = Inr bg \<and> cv' = cv @ [(ax, Facecolor bg), (ax, AxisOff)]"
    if r: "render_message_side env ax message theme cv = Inr cv'"
  proof -
    from r eq have "steps env ax [with_key theme ''bg'' Facecolor, Inr AxisOff] cv = Inr cv'"
      by simp
    from steps_Inr [OF this] obtain as where
      as: "[with_key theme ''bg'' Facecolor, Inr AxisOff] = map Inr as" "cv' = cv @ map (Pair ax) as"
      by (elim exE conjE)
    from as(1) obtain a where a: "as = [a, AxisOff]" "with_key theme ''bg'' Facecolor = Inr a"
      by (cases as; cases "tl as"; cases "tl (tl as)") auto
    from with_key_Inr [OF a(2)] obtain bg where "subscript theme ''bg'' = Inr bg" "a = Facecolor bg"
      by blast
    with as(2) a(1) show ?thesis by simp
  qed
  with eq show ?thesis by blast
qed

theorem C3_blank_message_witness:
  "list_all py_isspace [CHR 0x20, CHR 0x0A, CHR 0x09, CHR 0xA0]
   \<and> render_message_side paris_world MessageAxes [CHR 0x20, CHR 0x0A, CHR 0x09, CHR 0xA0] beige []
      = Inr [(MessageAxes, Facecolor (JStr ''#F5F0E8'')), (MessageAxes, AxisOff)]" (is "?blank \<and> ?drawn")
proof -
  have h: "\<forall>c \<in> set [CHR 0x20, CHR 0x0A, CHR 0x09, CHR 0xA0]. py_isspace c"
    by (simp add: py_isspace_def)
  have s: "steps paris_world MessageAxes [with_key beige ''bg'' Facecolor, Inr AxisOff] []
      = Inr [(MessageAxes, Facecolor (JStr ''#F5F0E8'')), (MessageAxes, AxisOff)]"
    by (simp add: with_key_def draw_def paris_world_def demo_world_def beige_def)
  from C3_blank_message [OF h, of paris_world MessageAxes beige "[]" "[]", THEN conjunct1] s
  have ?drawn by simp
  with h show ?thesis by (simp add: list_all_iff)
qed

subsection \<open>C4: the optional layers and the road network\<close>


lemma render_map_side_fetched:
  assumes "steps env ax [with_key theme ''bg'' Facecolor] cv = Inr cv1"
    and "graph_from_point env point radius ''all'' = Inr G"
  shows "render_map_side env ax city country point radius theme False cv
    = draw_map env ax city country point theme G (fetch_layer env point water_tags radius)
        (fetch_layer env point parks_tags radius) cv1"
  using assms by (simp add: render_map_side_def)





lemma paris_background:
  "steps (demo_world g w) MapAxes [with_key beige ''bg'' Facecolor] []
     = Inr [(MapAxes, Facecolor (JStr ''#F5F0E8''))]"
  by (simp add: with_key_def draw_def demo_world_def beige_def)

lemma paris_parks: "fetch_layer paris_world point parks_tags radius = Some [7]"
  by (simp add: fetch_layer_def paris_world_def demo_world_def water_tags_def parks_tags_def)

lemma paris_water:
  "features_from_point paris_world point water_tags radius = Inl (Exn ValueError ''No matching features'')"
  by (simp add: paris_world_def demo_world_def)

lemma paris_draw_map:
  "draw_map paris_world MapAxes ''Paris'' ''France'' point beige paris_graph None (Some [7])
     [(MapAxes, Facecolor (JStr ''#F5F0E8''))] = Inr (paris_canvas point)"
proof -
  have colors: "get_edge_colors_by_type paris_graph beige
      = Inr [JStr ''#A0724A'', JStr ''#D9C5AE'', JStr ''#D9C5AE'']"
    by (simp add: get_edge_colors_by_type_def paris_graph_def edge_color_def get_highway_def beige_def)
  have widths: "get_edge_widths_by_type paris_graph = [10 / 10, 4 / 10, 4 / 10]"
    by (simp add: get_edge_widths_by_type_def paris_graph_def edge_width_def get_highway_def)
  have w: "fonts_found paris_world" "upper paris_world = ascii_upper"
    "reaction paris_world = (\<lambda>ax a. None)"
    by (simp_all add: paris_world_def demo_world_def)
  have texts: "subscript beige ''text'' = Inr (JStr ''#3B2F2F'')"
    "subscript beige ''bg'' = Inr (JStr ''#F5F0E8'')"
    "subscript beige ''gradient_color'' = Inr (JStr ''#F5F0E8'')"
    "subscript beige ''parks'' = Inr (JStr ''#C9D8B6'')"
    by (simp_all add: beige_def)
  show ?thesis
    unfolding draw_map_def colors widths paris_canvas_def
    by (simp add: w texts with_key_def draw_def plot_layer_def create_gradient_fade_def Let_def)
qed

lemma paris_render_map:
  "render_map_side paris_world MapAxes ''Paris'' ''France'' point radius beige False []
     = Inr (paris_canvas point)"
proof -
  have b: "steps paris_world MapAxes [with_key beige ''bg'' Facecolor] []
      = Inr [(MapAxes, Facecolor (JStr ''#F5F0E8''))]"
    unfolding paris_world_def by (rule paris_background)
  have g: "graph_from_point paris_world point radius ''all'' = Inr paris_graph"
    by (simp add: paris_world_def demo_world_def)
  have "fetch_layer paris_world point water_tags radius = None"
    by (simp add: fetch_layer_def paris_water)
  with render_map_side_fetched [OF b g] paris_parks paris_draw_map show ?thesis
    by simp
qed


subsection \<open>C7: the caption of the coordinates\<close>

lemma digit_char_in: "digit_char d \<in> set ''0123456789''"
  unfolding digit_char_def by (rule nth_mem) simp

lemma set_dec: "set (dec n) \<subseteq> set ''0123456789''"
proof (induction n rule: dec.induct)
  case (1 n)
  show ?case
  proof (cases "n < 10")
    case True
    then show ?thesis
      using digit_char_in [of n] by (subst dec.simps) simp
  next
    case False
    with 1 have "set (dec (n div 10)) \<subseteq> set ''0123456789''" by simp
    with False show ?thesis
      using digit_char_in [of "n mod 10"] by (subst dec.simps) simp
  qed
qed

lemma no_E_dec: "CHR ''E'' \<notin> set (dec n)"
  using set_dec [of n] by auto

lemma no_E_format: "CHR ''E'' \<notin> set (format_4f x)"
  by (cases x) (auto simp: format_fixed4_def zpad_def Let_def no_E_dec)

lemma py_replace_absent: "a \<notin> set s \<Longrightarrow> py_replace [a] new s = s"
  by (induction s) auto

lemma py_replace_append: "py_replace [a] new (s @ t) = py_replace [a] new s @ py_replace [a] new t"
  by (simp add: py_replace_char)

lemma steps_mem:
  assumes "steps env ax ss cv = Inr cv'" and "s \<in> set ss"
  shows "\<exists>a. s = Inr a \<and> (ax, a) \<in> set cv'"
proof -
  from steps_Inr [OF assms(1)] obtain as where as: "ss = map Inr as" "cv' = cv @ map (Pair ax) as"
    by (elim exE conjE)
  from assms(2) as(1) obtain a where "a \<in> set as" "s = Inr a" by auto
  with as(2) have "s = Inr a \<and> (ax, a) \<in> set cv'" by auto
  then show ?thesis ..
qed

lemma draw_map_caption:
  assumes "draw_map env ax city country point theme G water parks cv1 = Inr cv'"
  shows "\<exists>c f. (ax, Text (5 / 10, 5 / 100) (coords_caption point) c f) \<in> set cv'"
proof -
  let ?layers = "plot_layer theme ''water'' 1 water @ plot_layer theme ''parks'' 2 parks"
  let ?f = "if fonts_found env then FontFile ''Roboto-Regular.ttf'' 10
            else FontFamily ''monospace'' ''normal'' 10"
  let ?s = "with_key theme ''text'' (\<lambda>c. Text (5 / 10, 5 / 100) (coords_caption point) c ?f)"
  obtain cv2 where l: "steps env ax ?layers cv1 = Inr cv2"
    using assms by (cases "steps env ax ?layers cv1") (simp_all add: draw_map_def)
  obtain ec where c: "get_edge_colors_by_type G theme = Inr ec"
    using assms l by (cases "get_edge_colors_by_type G theme") (simp_all add: draw_map_def)
  have "\<exists>ss. steps env ax ss cv2 = Inr cv' \<and> ?s \<in> set ss"
    using assms unfolding draw_map_def l c thn_simps Let_def
    by (intro exI conjI, assumption) simp
  then obtain ss where "steps env ax ss cv2 = Inr cv'" "?s \<in> set ss"
    by (elim exE conjE)
  from steps_mem [OF this] obtain a where a: "?s = Inr a" "(ax, a) \<in> set cv'"
    by (elim exE conjE)
  from with_key_Inr [OF a(1)] obtain c where "a = Text (5 / 10, 5 / 100) (coords_caption point) c ?f"
    by (elim exE conjE)
  with a(2) show ?thesis by blast
qed

text \<open>
  C7. The caption is the latitude, a degree sign and \<open>N\<close> when the latitude is at least zero,
  the absolute latitude, a degree sign and \<open>S\<close> when it is below zero; then the longitude as
  it is, a degree sign, and \<open>W\<close> when the longitude is below zero, \<open>E\<close> otherwise. The
  replacement of every \<open>E\<close> meets the final letter only, since no number is printed with an
  \<open>E\<close>, so that the letter of the longitude is \<open>W\<close> exactly when the longitude is negative.
  \<open>render_map_side\<close> draws this caption.
\<close>

theorem C7_caption:
  "(ge0 lat \<longrightarrow> coords_caption (lat, lon)
       = format_4f lat @ degree_sign @ '' N / '' @ format_4f lon @ degree_sign @ '' ''
           @ [if lt0 lon then CHR ''W'' else CHR ''E''])
   \<and> (lt0 lat \<longrightarrow> coords_caption (lat, lon)
       = format_4f (py_abs lat) @ degree_sign @ '' S / '' @ format_4f lon @ degree_sign @ '' ''
           @ [if lt0 lon then CHR ''W'' else CHR ''E''])
   \<and> (last (coords_caption (lat, lon)) = CHR ''W'' \<longleftrightarrow> lt0 lon)
   \<and> (last (coords_caption (lat, lon)) = CHR ''E'' \<longleftrightarrow> \<not> lt0 lon)
   \<and> (lt0 lon \<longrightarrow> CHR ''E'' \<notin> set (coords_caption (lat, lon)))
   \<and> (render_map_side env ax city country (lat, lon) radius theme fast cv = Inr cv' \<longrightarrow>
        (\<exists>c f. (ax, Text (5 / 10, 5 / 100) (coords_caption (lat, lon)) c f) \<in> set cv'))"
proof -
  define hemi where "hemi = (if ge0 lat then '' N / '' else '' S / '')"
  define shown where "shown = (if ge0 lat then lat else py_abs lat)"
  define body where "body = format_4f shown @ degree_sign @ hemi @ format_4f lon @ degree_sign @ '' ''"
  have noE: "CHR ''E'' \<notin> set body"
    by (simp add: body_def hemi_def degree_sign_def no_E_format)
  have cap: "coords_caption (lat, lon) = body @ [if lt0 lon then CHR ''W'' else CHR ''E'']"
  proof -
    have "coords_caption (lat, lon)
        = (if lt0 lon then py_replace ''E'' ''W'' (body @ ''E'') else body @ ''E'')"
      by (simp add: coords_caption_def body_def hemi_def shown_def Let_def)
    also have "py_replace ''E'' ''W'' (body @ ''E'') = body @ ''W''"
      using py_replace_absent [OF noE, of "''W''"] by (simp add: py_replace_append)
    finally show ?thesis by simp
  qed
  have neg: "lt0 lat \<Longrightarrow> \<not> ge0 lat" by (cases lat) auto
  have drawn: "\<exists>c f. (ax, Text (5 / 10, 5 / 100) (coords_caption (lat, lon)) c f) \<in> set cv'"
    if r: "render_map_side env ax city country (lat, lon) radius theme fast cv = Inr cv'"
  proof -
    obtain cv1 where b: "steps env ax [with_key theme ''bg'' Facecolor] cv = Inr cv1"
      using r by (cases "steps env ax [with_key theme ''bg'' Facecolor] cv")
        (simp_all add: render_map_side_def)
    obtain G where g: "graph_from_point env (lat, lon) radius (if fast then ''drive'' else ''all'') = Inr G"
      using r b by (cases "graph_from_point env (lat, lon) radius (if fast then ''drive'' else ''all'')")
        (simp_all add: render_map_side_def)
    from r b g have "\<exists>water parks. draw_map env ax city country (lat, lon) theme G water parks cv1 = Inr cv'"
      unfolding render_map_side_def by (simp add: Let_def) blast
    then show ?thesis using draw_map_caption by blast
  qed
  show ?thesis
  proof (intro conjI impI)
    assume "ge0 lat"
    then show "coords_caption (lat, lon)
       = format_4f lat @ degree_sign @ '' N / '' @ format_4f lon @ degree_sign @ '' ''
           @ [if lt0 lon then CHR ''W'' else CHR ''E'']"
      by (simp add: cap body_def hemi_def shown_def)
  next
    assume "lt0 lat"
    then show "coords_caption (lat, lon)
       = format_4f (py_abs lat) @ degree_sign @ '' S / '' @ format_4f lon @ degree_sign @ '' ''
           @ [if lt0 lon then CHR ''W'' else CHR ''E'']"
      using neg by (simp add: cap body_def hemi_def shown_def)
  next
    show "last (coords_caption (lat, lon)) = CHR ''W'' \<longleftrightarrow> lt0 lon"
      by (simp add: cap)
    show "last (coords_caption (lat, lon)) = CHR ''E'' \<longleftrightarrow> \<not> lt0 lon"
      by (simp add: cap)
  next
    assume "lt0 lon"
    then show "CHR ''E'' \<notin> set (coords_caption (lat, lon))"
      using noE by (simp add: cap)
  next
    assume "render_map_side env ax city country (lat, lon) radius theme fast cv = Inr cv'"
    then show "\<exists>c f. (ax, Text (5 / 10, 5 / 100) (coords_caption (lat, lon)) c f) \<in> set cv'"
      by (rule drawn)
  qed
qed

lemma dec_numeral:
  "dec (numeral k) =
     (if (numeral k :: nat) < 10 then [digit_char (numeral k)]
      else dec (numeral k div 10) @ [digit_char (numeral k mod 10)])"
  by (rule dec.simps)

lemma dec_small: "dec 0 = ''0''" "dec (Suc 0) = ''1''"
  by (simp_all add: dec.simps [of 0] dec.simps [of "Suc 0"] digit_char_def)

theorem C7_caption_witness:
  "ge0 (Fin (488566 / 10000))
   \<and> coords_caption (Fin (488566 / 10000), Fin (- 23522 / 10000))
       = ''48.8566'' @ [CHR 0xB0] @ '' N / -2.3522'' @ [CHR 0xB0] @ '' W''
   \<and> lt0 (Fin (- 338688 / 10000))
   \<and> coords_caption (Fin (- 338688 / 10000), Fin (1512093 / 10000))
       = ''33.8688'' @ [CHR 0xB0] @ '' S / 151.2093'' @ [CHR 0xB0] @ '' E''
   \<and> lt0 (Fin (- 23522 / 10000))
   \<and> CHR ''E'' \<notin> set (coords_caption (Fin (488566 / 10000), Fin (- 23522 / 10000)))
   \<and> render_map_side paris_world MapAxes ''Paris'' ''France''
         (Fin (488566 / 10000), Fin (- 23522 / 10000)) 5000 beige False []
       = Inr (paris_canvas (Fin (488566 / 10000), Fin (- 23522 / 10000)))
   \<and> (\<exists>c f. (MapAxes, Text (5 / 10, 5 / 100)
                 (coords_caption (Fin (488566 / 10000), Fin (- 23522 / 10000))) c f)
         \<in> set (paris_canvas (Fin (488566 / 10000), Fin (- 23522 / 10000))))"
proof -
  let ?lat = "Fin (488566 / 10000)" and ?lon = "Fin (- 23522 / 10000)"
  let ?lat' = "Fin (- 338688 / 10000)" and ?lon' = "Fin (1512093 / 10000)"
  have h1: "ge0 ?lat" and h2: "lt0 ?lat'" and h3: "lt0 ?lon" by simp_all
  have r: "render_map_side paris_world MapAxes ''Paris'' ''France'' (?lat, ?lon) 5000 beige False []
      = Inr (paris_canvas (?lat, ?lon))"
    by (rule paris_render_map)
  have f: "format_4f ?lat = ''48.8566''" "format_4f ?lon = ''-2.3522''"
    "format_4f (py_abs ?lat') = ''33.8688''" "format_4f ?lon' = ''151.2093''"
    by (simp_all add: format_fixed4_def round_half_even_def dec_numeral dec_small digit_char_def
        zpad_def Let_def)
  note t = C7_caption [of ?lat ?lon paris_world MapAxes "''Paris''" "''France''" 5000 beige False "[]"
      "paris_canvas (?lat, ?lon)"]
  note u = C7_caption [of ?lat' ?lon' paris_world MapAxes "''Paris''" "''France''" 5000 beige False "[]"
      "paris_canvas (?lat, ?lon)"]
  note a = t [THEN conjunct1, THEN mp, OF h1]
  note b = u [THEN conjunct2, THEN conjunct1, THEN mp, OF h2]
  note c = t [THEN conjunct2, THEN conjunct2, THEN conjunct2, THEN conjunct2, THEN conjunct1,
      THEN mp, OF h3]
  note d = t [THEN conjunct2, THEN conjunct2, THEN conjunct2, THEN conjunct2, THEN conjunct2,
      THEN mp, OF r]
  have a': "coords_caption (?lat, ?lon) = ''48.8566'' @ [CHR 0xB0] @ '' N / -2.3522'' @ [CHR 0xB0] @ '' W''"
    unfolding a f by (simp add: degree_sign_def)
  have b': "coords_caption (?lat', ?lon') = ''33.8688'' @ [CHR 0xB0] @ '' S / 151.2093'' @ [CHR 0xB0] @ '' E''"
    unfolding b f by (simp add: degree_sign_def)
  show ?thesis
    using h1 a' h2 b' h3 c r d by (intro conjI) (simp_all only: simp_thms)
qed

section \<open>The theme listing: proofs\<close>

lemma summarise_object: "summarise theme_name (JObj kvs) = Inr (summary_of theme_name kvs)"
  by (simp add: summarise_def summary_of_def field_or_def split: option.splits)

lemma summarise_other:
  "\<forall>kvs. theme_data \<noteq> JObj kvs \<Longrightarrow> \<exists>m. summarise theme_name theme_data = Inl (Exn OtherException m)"
  by (cases theme_data) (simp_all add: summarise_def)

lemma themes_loop_listed:
  assumes "\<forall>f \<in> set fs. \<not> escapes (snd f)"
  shows "themes_loop fs themes = Inr (themes @ List.map_filter listed fs)"
  using assms
proof (induction fs arbitrary: themes)
  case Nil
  then show ?case by (simp add: List.map_filter_simps)
next
  case (Cons f fs)
  obtain file_name loaded where f: "f = (file_name, loaded)" by (cases f)
  from Cons.prems have rest: "\<forall>f \<in> set fs. \<not> escapes (snd f)" and here: "\<not> escapes loaded"
    by (simp_all add: f)
  note IH = Cons.IH [OF rest]
  show ?case
  proof (cases loaded)
    case (Inl e)
    obtain c m where e: "e = Exn c m" by (cases e)
    with here Inl have "c \<noteq> NonException" by (cases c) simp_all
    with e Inl f IH show ?thesis
      by (cases c) (simp_all add: List.map_filter_simps)
  next
    case (Inr theme_data)
    show ?thesis
    proof (cases "\<exists>kvs. theme_data = JObj kvs")
      case True
      then obtain kvs where "theme_data = JObj kvs" ..
      with Inr f IH show ?thesis
        by (simp add: summarise_object List.map_filter_simps)
    next
      case False
      then have no: "\<forall>kvs. theme_data \<noteq> JObj kvs" by simp
      from summarise_other [OF no] obtain m where
        "summarise (stem file_name) theme_data = Inl (Exn OtherException m)" ..
      moreover have "listed (file_name, Inr theme_data) = None"
        using no by (cases theme_data) simp_all
      ultimately show ?thesis
        using Inr f IH by (simp add: List.map_filter_simps)
    qed
  qed
qed

text \<open>
  C9, as stated, fails on two points. The files are sorted by their names, extension
  included, so that \<open>a-b.json\<close> comes before \<open>a.json\<close> and the identifiers come out as
  \<open>a-b\<close>, \<open>a\<close>: not in the order of the identifiers. And a file that parses, but not to an
  object, gets no summary: \<open>list.json\<close> holds \<open>[]\<close>.
\<close>

theorem C9_counterexample:
  "themes_dir paris_world
     = Some [(''warm_beige.json'', Inr beige),
             (''broken.json'', Inl (Exn ValueError ''Expecting value: line 1 column 1 (char 0)'')),
             (''a.json'', Inr (JObj [])), (''a-b.json'', Inr (JObj [])),
             (''list.json'', Inr (JArr [])), (''notes.txt'', Inr JNull)]
   \<and> list_themes paris_world
     = Inr [summary_of ''a-b'' [], summary_of ''a'' [],
            summary_of ''warm_beige'' [(''name'', JStr ''Warm Beige''), (''description'', JStr ''Earthy tones''),
              (''bg'', JStr ''#F5F0E8''), (''text'', JStr ''#3B2F2F''),
              (''water'', JStr ''#A8C4C4''), (''parks'', JStr ''#C9D8B6''),
              (''road_primary'', JStr ''#A0724A'')]]
   \<and> \<not> sorted [''a-b'', ''a'', ''warm_beige'']"
proof -
  have "list_themes paris_world
     = Inr [summary_of ''a-b'' [], summary_of ''a'' [],
            summary_of ''warm_beige'' [(''name'', JStr ''Warm Beige''), (''description'', JStr ''Earthy tones''),
              (''bg'', JStr ''#F5F0E8''), (''text'', JStr ''#3B2F2F''),
              (''water'', JStr ''#A8C4C4''), (''parks'', JStr ''#C9D8B6''),
              (''road_primary'', JStr ''#A0724A'')]]"
    by (simp add: list_themes_def paris_world_def demo_world_def is_json_name_def stem_def rfind_def
        summarise_def beige_def summary_of_def field_or_def)
  moreover have "\<not> sorted [''a-b'', ''a'', ''warm_beige'']"
    by simp
  ultimately show ?thesis
    by (simp add: paris_world_def demo_world_def)
qed

text \<open>
  C9, amended. Without a theme directory the listing is empty. Otherwise, unless reading a
  file raises what is not an \<open>Exception\<close>, the listing holds one summary (identifier, display
  name and description, the five colors, each with its default) for every file named
  \<open>*.json\<close> that is read as a JSON object, in the ascending order of the file names; every
  other file is skipped.
\<close>

theorem C9_listing:
  "(themes_dir env = None \<longrightarrow> list_themes env = Inr [])
   \<and> (themes_dir env = Some files \<and> (\<forall>f \<in> set files. \<not> escapes (snd f)) \<longrightarrow>
        list_themes env
          = Inr (List.map_filter listed (sort_key fst (filter (\<lambda>f. is_json_name (fst f)) files)))
        \<and> sorted (map fst (sort_key fst (filter (\<lambda>f. is_json_name (fst f)) files)))
        \<and> set (sort_key fst (filter (\<lambda>f. is_json_name (fst f)) files))
            = {f \<in> set files. is_json_name (fst f)}
        \<and> length (sort_key fst (filter (\<lambda>f. is_json_name (fst f)) files))
            = length (filter (\<lambda>f. is_json_name (fst f)) files))
   \<and> listed (file_name, Inr (JObj kvs)) = Some (summary_of (stem file_name) kvs)
   \<and> listed (file_name, Inl e) = None
   \<and> ((\<forall>kvs. theme_data \<noteq> JObj kvs) \<longrightarrow> listed (file_name, Inr theme_data) = None)"
proof (intro conjI impI)
  assume "themes_dir env = None"
  then show "list_themes env = Inr []" by (simp add: list_themes_def)
next
  assume a: "themes_dir env = Some files \<and> (\<forall>f \<in> set files. \<not> escapes (snd f))"
  then have "\<forall>f \<in> set (sort_key fst (filter (\<lambda>f. is_json_name (fst f)) files)). \<not> escapes (snd f)"
    by simp
  from themes_loop_listed [OF this, of "[]"] a
  show "list_themes env
      = Inr (List.map_filter listed (sort_key fst (filter (\<lambda>f. is_json_name (fst f)) files)))"
    by (simp add: list_themes_def)
  show "sorted (map fst (sort_key fst (filter (\<lambda>f. is_json_name (fst f)) files)))"
    by (rule sorted_sort_key)
  show "set (sort_key fst (filter (\<lambda>f. is_json_name (fst f)) files))
      = {f \<in> set files. is_json_name (fst f)}"
    by simp
  show "length (sort_key fst (filter (\<lambda>f. is_json_name (fst f)) files))
      = length (filter (\<lambda>f. is_json_name (fst f)) files)"
    by simp
next
  show "listed (file_name, Inr (JObj kvs)) = Some (summary_of (stem file_name) kvs)" by simp
  show "listed (file_name, Inl e) = None" by simp
next
  assume "\<forall>kvs. theme_data \<noteq> JObj kvs"
  then show "listed (file_name, Inr theme_data) = None"
    by (cases theme_data) simp_all
qed

theorem C9_listing_witness:
  "themes_dir (paris_world\<lparr>themes_dir := None\<rparr>) = None
   \<and> list_themes (paris_world\<lparr>themes_dir := None\<rparr>) = Inr []
   \<and> themes_dir (paris_world\<lparr>themes_dir := Some [(''b.json'', Inr (JArr [])), (''a.json'', Inr (JObj [])),
        (''c.json'', Inl (Exn ValueError ''Expecting value''))]\<rparr>)
       = Some [(''b.json'', Inr (JArr [])), (''a.json'', Inr (JObj [])),
               (''c.json'', Inl (Exn ValueError ''Expecting value''))]
   \<and> list_all (\<lambda>f. \<not> escapes (snd f)) [(''b.json'', Inr (JArr [])), (''a.json'', Inr (JObj [])),
                 (''c.json'', Inl (Exn ValueError ''Expecting value''))]
   \<and> list_themes (paris_world\<lparr>themes_dir := Some [(''b.json'', Inr (JArr [])), (''a.json'', Inr (JObj [])),
        (''c.json'', Inl (Exn ValueError ''Expecting value''))]\<rparr>)
       = Inr [summary_of ''a'' []]
   \<and> listed (''b.json'', Inr (JArr [])) = None"
proof -
  let ?files = "[(''b.json'', Inr (JArr [])), (''a.json'', Inr (JObj [])),
                 (''c.json'', Inl (Exn ValueError ''Expecting value''))]"
  let ?w1 = "paris_world\<lparr>themes_dir := None\<rparr>"
  let ?w2 = "paris_world\<lparr>themes_dir := Some ?files\<rparr>"
  have h1: "themes_dir ?w1 = None" by simp
  have e: "\<forall>f \<in> set ?files. \<not> escapes (snd f)" by simp
  have h2: "themes_dir ?w2 = Some ?files \<and> (\<forall>f \<in> set ?files. \<not> escapes (snd f))"
    using e by simp
  have h3: "\<forall>kvs. JArr [] \<noteq> JObj kvs" by simp
  note a = C9_listing [of ?w1 ?files "''b.json''" "[]" no_graph "JArr []", THEN conjunct1, THEN mp, OF h1]
  note b = C9_listing [of ?w2 ?files "''b.json''" "[]" no_graph "JArr []",
      THEN conjunct2, THEN conjunct1, THEN mp, OF h2, THEN conjunct1]
  note c = C9_listing [of ?w2 ?files "''b.json''" "[]" no_graph "JArr []",
      THEN conjunct2, THEN conjunct2, THEN conjunct2, THEN conjunct2, THEN mp, OF h3]
  have s: "List.map_filter listed (sort_key fst (filter (\<lambda>f. is_json_name (fst f)) ?files))
      = [summary_of ''a'' []]"
    by (simp add: is_json_name_def List.map_filter_simps stem_def rfind_def)
  have e': "list_all (\<lambda>f. \<not> escapes (snd f)) ?files" by simp
  from a b c h1 h2 e' s show ?thesis
    by (intro conjI) (simp_all only: simp_thms)
qed

section \<open>The word wrap: proofs\<close>

subsection \<open>Characters and chunks\<close>

lemma tw_space_isspace: "tw_space c \<Longrightarrow> py_isspace c"
  by (auto simp: tw_space_def py_isspace_def)

lemma space_facts [simp]: "tw_space (CHR 0x20)" "py_isspace (CHR 0x20)" "clean (CHR 0x20)"
  by (simp_all add: tw_space_def py_isspace_def clean_def)

lemma clean_tw_space: "clean c \<Longrightarrow> tw_space c \<Longrightarrow> c = CHR 0x20"
  by (auto simp: clean_def dest: tw_space_isspace)

lemma clean_not_space: "clean c \<Longrightarrow> \<not> tw_space c \<Longrightarrow> \<not> py_isspace c"
  by (auto simp: clean_def)

lemma clean_not_newline: "clean c \<Longrightarrow> c \<noteq> CHR 0x0A"
  by (auto simp: clean_def py_isspace_def)

lemma clean_not_tab: "clean c \<Longrightarrow> c \<noteq> CHR 0x09"
  by (auto simp: clean_def py_isspace_def)

lemma uniform_clean: "uniform ch \<Longrightarrow> x \<in> set ch \<Longrightarrow> clean x"
  unfolding uniform_def clean_def by blast

lemma uniform_blank:
  assumes "uniform ch"
  shows "py_strip ch = [] \<longleftrightarrow> (\<forall>x \<in> set ch. x = CHR 0x20)"
proof
  assume "py_strip ch = []"
  then have a: "\<forall>x \<in> set ch. py_isspace x" by (simp only: py_strip_blank)
  from assms have "ch \<noteq> []" unfolding uniform_def by blast
  then have y: "hd ch \<in> set ch" by (rule hd_in_set)
  with a have "py_isspace (hd ch)" by blast
  with y have "\<not> (\<forall>x \<in> set ch. \<not> py_isspace x)" by blast
  with assms show "\<forall>x \<in> set ch. x = CHR 0x20" unfolding uniform_def by blast
next
  assume "\<forall>x \<in> set ch. x = CHR 0x20"
  then have "\<forall>x \<in> set ch. py_isspace x" using space_facts(2) by metis
  then show "py_strip ch = []" by (simp only: py_strip_blank)
qed

lemma uniform_last:
  assumes "uniform ch" "py_strip ch \<noteq> []"
  shows "\<not> py_isspace (last ch)"
proof -
  from assms have "\<not> (\<forall>x \<in> set ch. x = CHR 0x20)"
    using uniform_blank [OF assms(1)] by blast
  with assms(1) have a: "\<forall>x \<in> set ch. \<not> py_isspace x" and n: "ch \<noteq> []"
    unfolding uniform_def by blast+
  from n have "last ch \<in> set ch" by (rule last_in_set)
  with a show ?thesis by blast
qed

lemma no_double_append: "no_double (xs @ ys) \<Longrightarrow> no_double xs \<and> no_double ys"
proof (induction xs)
  case Nil
  then show ?case by simp
next
  case (Cons x xs)
  note prems = Cons.prems and IH = Cons.IH
  show ?case
  proof (cases xs)
    case Nil
    with prems show ?thesis by (cases ys) simp_all
  next
    case (Cons y zs)
    with prems have "\<not> (py_strip x = [] \<and> py_strip y = [])" and "no_double (xs @ ys)"
      by simp_all
    with IH Cons show ?thesis by simp
  qed
qed

lemma no_double_last2: "no_double (xs @ [a, b]) \<Longrightarrow> \<not> (py_strip a = [] \<and> py_strip b = [])"
proof (induction xs)
  case Nil
  then show ?case by simp
next
  case (Cons x xs)
  then have "no_double (xs @ [a, b])" by (cases "xs @ [a, b]") simp_all
  with Cons.IH show ?case by blast
qed

lemma chunks_ok_append: "chunks_ok w (xs @ ys) \<Longrightarrow> chunks_ok w xs \<and> chunks_ok w ys"
  using no_double_append [of xs ys] by (auto simp: chunks_ok_def)

lemma chunks_ok_tl: "chunks_ok w cs \<Longrightarrow> chunks_ok w (tl cs)"
proof (cases cs)
  case Nil
  then show "chunks_ok w cs \<Longrightarrow> chunks_ok w (tl cs)" by simp
next
  case (Cons c cs')
  assume "chunks_ok w cs"
  with Cons chunks_ok_append [of w "[c]" cs'] show "chunks_ok w (tl cs)" by simp
qed

subsection \<open>Munging and splitting\<close>

lemma expandtabs_set: "set (expandtabs col t) \<subseteq> insert (CHR 0x20) (set t)"
  by (induction t arbitrary: col) auto

lemma expandtabs_keeps: "x \<in> set t \<Longrightarrow> x \<noteq> CHR 0x09 \<Longrightarrow> x \<in> set (expandtabs col t)"
  by (induction t arbitrary: col) auto

lemma expandtabs_id: "CHR 0x09 \<notin> set t \<Longrightarrow> expandtabs col t = t"
  by (induction t arbitrary: col) auto

lemma munge_clean:
  assumes "\<forall>c \<in> set p. py_isspace c \<longrightarrow> tw_space c"
  shows "\<forall>c \<in> set (munge_whitespace p). clean c"
proof
  fix c assume "c \<in> set (munge_whitespace p)"
  then obtain d where d: "d \<in> set (expandtabs 0 p)" "c = (if tw_space d then CHR 0x20 else d)"
    by (auto simp: munge_whitespace_def)
  show "clean c"
  proof (cases "tw_space d")
    case True
    with d show ?thesis by simp
  next
    case False
    with d(1) expandtabs_set [of 0 p] have "d \<in> set p" by auto
    with assms False have "\<not> py_isspace d" by blast
    with d False show ?thesis by (simp add: clean_def)
  qed
qed

lemma munge_keeps:
  assumes "x \<in> set p" "\<not> py_isspace x"
  shows "x \<in> set (munge_whitespace p)"
proof -
  from assms(2) have n: "\<not> tw_space x" using tw_space_isspace by blast
  then have "x \<noteq> CHR 0x09" by (auto simp: tw_space_def)
  with assms(1) have "x \<in> set (expandtabs 0 p)" by (rule expandtabs_keeps)
  then have "(if tw_space x then CHR 0x20 else x) \<in> set (munge_whitespace p)"
    unfolding munge_whitespace_def by (simp add: image_iff) blast
  with n show ?thesis by simp
qed

lemma munge_id:
  assumes "\<forall>c \<in> set t. clean c"
  shows "munge_whitespace t = t"
proof -
  from assms have "CHR 0x09 \<notin> set t" using clean_not_tab by blast
  then have e: "expandtabs 0 t = t" by (rule expandtabs_id)
  have "map (\<lambda>c. if tw_space c then CHR 0x20 else c) t = t"
    using assms by (induction t) (auto dest: clean_tw_space)
  with e show ?thesis by (simp add: munge_whitespace_def)
qed

lemma concat_tw_split: "concat (tw_split bef t) = t"
  by (induction bef t rule: tw_split.induct) simp_all

lemma word_rest_chars: "x \<in> set (take (word_rest bef cs) cs) \<Longrightarrow> \<not> tw_space x"
proof (induction cs arbitrary: bef)
  case Nil
  then show ?case by simp
next
  case (Cons c cs)
  then show ?case
    by (auto simp: tw_space_def split: if_splits)
qed

lemma first_chunk_uniform:
  assumes "\<forall>x \<in> set (c # cs). clean x"
  shows "uniform (c # take (chunk_more bef c cs) cs)"
proof (cases "tw_space c")
  case True
  have "\<forall>x \<in> set (takeWhile tw_space cs). x = CHR 0x20"
  proof
    fix x assume x: "x \<in> set (takeWhile tw_space cs)"
    then have "tw_space x" by (rule set_takeWhileD [THEN conjunct2])
    moreover from x assms have "clean x" by (auto dest: set_takeWhileD)
    ultimately show "x = CHR 0x20" by (rule clean_tw_space [rotated])
  qed
  moreover from True assms have "c = CHR 0x20" by (auto dest: clean_tw_space)
  ultimately show ?thesis
    using True by (simp add: uniform_def chunk_more_def takeWhile_eq_take [symmetric])
next
  case False
  with assms have c: "\<not> py_isspace c" by (auto dest: clean_not_space)
  show ?thesis
  proof (cases "punct_behind bef \<and> emdash_ahead (c # cs)")
    case True
    have "\<forall>x \<in> set (takeWhile (\<lambda>x. x = CHR ''-'') cs). \<not> py_isspace x"
      by (auto dest!: set_takeWhileD simp: py_isspace_def)
    with True False c show ?thesis
      by (simp add: uniform_def chunk_more_def takeWhile_eq_take [symmetric])
  next
    case no: False
    have "\<forall>x \<in> set (take (word_rest (c # bef) cs) cs). \<not> py_isspace x"
    proof
      fix x assume x: "x \<in> set (take (word_rest (c # bef) cs) cs)"
      then have "\<not> tw_space x" by (rule word_rest_chars)
      moreover from x assms have "clean x" by (auto dest: in_set_takeD)
      ultimately show "\<not> py_isspace x" by (rule clean_not_space [rotated])
    qed
    with no False c show ?thesis
      by (auto simp: uniform_def chunk_more_def)
  qed
qed

lemma tw_split_uniform:
  "\<forall>x \<in> set t. clean x \<Longrightarrow> \<forall>ch \<in> set (tw_split bef t). uniform ch"
proof (induction bef t rule: tw_split.induct)
  case (1 bef)
  then show ?case by simp
next
  case (2 bef c cs)
  from "2.prems" have "\<forall>x \<in> set (drop (chunk_more bef c cs) cs). clean x"
    by (auto dest: in_set_dropD)
  with "2.IH" have "\<forall>ch \<in> set (tw_split (rev (take (chunk_more bef c cs) cs) @ c # bef)
      (drop (chunk_more bef c cs) cs)). uniform ch" by blast
  with first_chunk_uniform [OF "2.prems", of bef] show ?case by simp
qed

lemma tw_split_no_double:
  "\<forall>x \<in> set t. clean x \<Longrightarrow> no_double (tw_split bef t)"
proof (induction bef t rule: tw_split.induct)
  case (1 bef)
  then show ?case by simp
next
  case (2 bef c cs)
  let ?n = "chunk_more bef c cs"
  let ?ch = "c # take ?n cs"
  let ?bef = "rev (take ?n cs) @ c # bef"
  from "2.prems" have cl: "\<forall>x \<in> set (drop ?n cs). clean x"
    by (auto dest: in_set_dropD)
  with "2.IH" have IH: "no_double (tw_split ?bef (drop ?n cs))" by blast
  show ?case
  proof (cases "drop ?n cs")
    case Nil
    then show ?thesis by simp
  next
    case (Cons d ds)
    let ?ch' = "d # take (chunk_more ?bef d ds) ds"
    have "\<not> (py_strip ?ch = [] \<and> py_strip ?ch' = [])"
    proof
      assume b: "py_strip ?ch = [] \<and> py_strip ?ch' = []"
      then have "py_isspace c" "py_isspace d" by (auto simp: py_strip_blank)
      with "2.prems" cl Cons have "c = CHR 0x20" "d = CHR 0x20"
        by (auto simp: clean_def)
      then have "?n = length (takeWhile tw_space cs)" "tw_space d"
        by (simp_all add: chunk_more_def)
      with Cons have "dropWhile tw_space cs = d # ds"
        by (simp add: dropWhile_eq_drop)
      with \<open>tw_space d\<close> show False
        using hd_dropWhile [of tw_space cs] by simp
    qed
    with IH Cons show ?thesis by simp
  qed
qed

lemma tw_split_ok:
  assumes "\<forall>x \<in> set t. clean x" and "\<forall>ch \<in> set (tw_split bef t). length ch \<le> w"
  shows "chunks_ok w (tw_split bef t)"
  using assms tw_split_uniform [OF assms(1), of bef] tw_split_no_double [OF assms(1), of bef]
  by (simp add: chunks_ok_def)

subsection \<open>Laying out the chunks\<close>

lemma fill_line_bound:
  "fill_line w cur len cs = (cur', len', cs') \<Longrightarrow> len \<le> w \<Longrightarrow> len' \<le> w"
  by (induction w cur len cs rule: fill_line.induct) (auto split: if_splits)

lemma fill_line_all:
  "len + sum_list (map length cs) \<le> w \<Longrightarrow>
   fill_line w cur len cs = (cur @ cs, len + sum_list (map length cs), [])"
  by (induction cs arbitrary: cur len) simp_all

text \<open>
  One pass over chunks none of which is longer than the width: the chunks that remain are a
  suffix, and the line is the chunks taken, without a blank chunk at its end.
\<close>

lemma wrap_line_short:
  assumes ok: "chunks_ok w cs" and ne: "cs \<noteq> []"
  shows "\<exists>taken. (if py_strip (hd cs) = [] \<and> \<not> first then tl cs else cs)
            = taken @ snd (wrap_line w first cs)
    \<and> sum_list (map length taken) \<le> w
    \<and> fst (wrap_line w first cs)
        = (if taken \<noteq> [] \<and> py_strip (last taken) = [] then butlast taken else taken)"
proof -
  let ?cs1 = "if py_strip (hd cs) = [] \<and> \<not> first then tl cs else cs"
  obtain cur len cs2 where f: "fill_line w [] 0 ?cs1 = (cur, len, cs2)"
    by (cases "fill_line w [] 0 ?cs1") auto
  from fill_line_takes [OF f] obtain taken where
    t: "?cs1 = taken @ cs2" "cur = taken" "len = sum_list (map length taken)"
    by auto
  from fill_line_bound [OF f] have b: "len \<le> w" by simp
  have "set cs2 \<subseteq> set cs"
  proof -
    have "set ?cs1 \<subseteq> set cs" using ne by (cases cs) auto
    with t(1) show ?thesis by auto
  qed
  with ok have short: "cs2 \<noteq> [] \<longrightarrow> \<not> length (hd cs2) > w"
    by (cases cs2) (auto simp: chunks_ok_def)
  have "wrap_line w first cs
      = (if taken \<noteq> [] \<and> py_strip (last taken) = [] then butlast taken else taken, cs2)"
    using f short t(2) by (auto simp: wrap_line_def Let_def)
  with t b show ?thesis by auto
qed

lemma wrap_line_rest_ok:
  assumes "chunks_ok w cs" "cs \<noteq> []"
  shows "chunks_ok w (snd (wrap_line w first cs))"
proof -
  from wrap_line_short [OF assms, of first] obtain taken where
    t: "(if py_strip (hd cs) = [] \<and> \<not> first then tl cs else cs) = taken @ snd (wrap_line w first cs)"
    by blast
  have "chunks_ok w (if py_strip (hd cs) = [] \<and> \<not> first then tl cs else cs)"
    using assms(1) chunks_ok_tl by simp
  with t chunks_ok_append show ?thesis by metis
qed

lemma wrap_line_line_ok:
  assumes ok: "chunks_ok w cs" and ne: "cs \<noteq> []" and cur: "fst (wrap_line w first cs) \<noteq> []"
  shows "line_ok w (concat (fst (wrap_line w first cs)))"
proof -
  let ?cs1 = "if py_strip (hd cs) = [] \<and> \<not> first then tl cs else cs"
  let ?cur = "fst (wrap_line w first cs)"
  from wrap_line_short [OF ok ne, of first] obtain taken where
    t: "?cs1 = taken @ snd (wrap_line w first cs)" "sum_list (map length taken) \<le> w"
       "?cur = (if taken \<noteq> [] \<and> py_strip (last taken) = [] then butlast taken else taken)"
    by blast
  have ok1: "chunks_ok w ?cs1" using ok chunks_ok_tl by simp
  with t(1) chunks_ok_append have okt: "chunks_ok w taken" by metis
  have sub: "set ?cur \<subseteq> set taken"
    using t(3) by (auto dest: in_set_butlastD)
  with okt have u: "\<forall>ch \<in> set ?cur. uniform ch" by (auto simp: chunks_ok_def)
  have pre: "\<exists>r. taken = ?cur @ r"
    using t(3) by (auto intro: exI [of _ "[last taken]"] exI [of _ "[]"])
  have nb: "py_strip (last ?cur) \<noteq> []"
  proof (cases "taken \<noteq> [] \<and> py_strip (last taken) = []")
    case True
    with t(3) have c: "?cur = butlast taken" by simp
    with cur have "butlast taken \<noteq> []" by simp
    then have "taken = butlast (butlast taken) @ [last (butlast taken), last taken]"
      using True by (metis append_butlast_last_id append.assoc append_Cons append_Nil)
    with okt have "no_double (butlast (butlast taken) @ [last (butlast taken), last taken])"
      by (simp add: chunks_ok_def)
    from no_double_last2 [OF this] True c show ?thesis by simp
  next
    case False
    with t(3) cur show ?thesis by auto
  qed
  from cur u have lastu: "uniform (last ?cur)" by simp
  from cur have cc: "concat ?cur = concat (butlast ?cur) @ last ?cur"
    by (metis append_butlast_last_id concat.simps concat_append append_Nil2)
  from lastu have lne: "last ?cur \<noteq> []" by (simp add: uniform_def)
  have 1: "concat ?cur \<noteq> []" using cc lne by simp
  have 2: "length (concat ?cur) \<le> w"
  proof -
    from pre obtain r where "taken = ?cur @ r" ..
    then have "sum_list (map length taken) = sum_list (map length ?cur) + sum_list (map length r)"
      by (metis map_append sum_list_append)
    with t(2) show ?thesis by (simp add: length_concat)
  qed
  have 3: "\<forall>x \<in> set (concat ?cur). clean x"
    using u uniform_clean by auto
  have 4: "\<not> py_isspace (last (concat ?cur))"
    using cc lne uniform_last [OF lastu nb] by simp
  from 1 2 3 4 show ?thesis by (simp add: line_ok_def)
qed

lemma wrap_chunks_ok:
  "chunks_ok w cs \<Longrightarrow> \<forall>l \<in> set lines. line_ok w l \<Longrightarrow>
   \<forall>l \<in> set (wrap_chunks w lines cs). line_ok w l"
proof (induction w lines cs rule: wrap_chunks.induct)
  case (1 w lines cs)
  show ?case
  proof (cases "cs = []")
    case True
    with "1.prems" show ?thesis by (subst wrap_chunks.simps) simp
  next
    case False
    let ?cur = "fst (wrap_line w (lines = []) cs)"
    let ?lines = "if ?cur \<noteq> [] then lines @ [concat ?cur] else lines"
    have a: "chunks_ok w (snd (wrap_line w (lines = []) cs))"
      using "1.prems"(1) False by (rule wrap_line_rest_ok)
    have b: "\<forall>l \<in> set ?lines. line_ok w l"
      using "1.prems" wrap_line_line_ok [OF "1.prems"(1) False, of "lines = []"] by auto
    from "1.IH" [OF False a b] False show ?thesis
      by (subst wrap_chunks.simps) simp
  qed
qed

lemma wrap_chunks_nonempty:
  "chunks_ok w cs \<Longrightarrow> lines \<noteq> [] \<or> (\<exists>ch \<in> set cs. py_strip ch \<noteq> []) \<Longrightarrow>
   wrap_chunks w lines cs \<noteq> []"
proof (induction w lines cs rule: wrap_chunks.induct)
  case (1 w lines cs)
  show ?case
  proof (cases "cs = []")
    case True
    with "1.prems" show ?thesis by (subst wrap_chunks.simps) simp
  next
    case False
    let ?first = "lines = []"
    let ?cur = "fst (wrap_line w ?first cs)"
    let ?rest = "snd (wrap_line w ?first cs)"
    let ?lines = "if ?cur \<noteq> [] then lines @ [concat ?cur] else lines"
    have a: "chunks_ok w ?rest"
      using "1.prems"(1) False by (rule wrap_line_rest_ok)
    have b: "?lines \<noteq> [] \<or> (\<exists>ch \<in> set ?rest. py_strip ch \<noteq> [])"
    proof (cases "lines = []")
      case False
      then show ?thesis by simp
    next
      case True
      with "1.prems"(2) obtain ch where ch: "ch \<in> set cs" "py_strip ch \<noteq> []" by blast
      from wrap_line_short [OF "1.prems"(1) \<open>cs \<noteq> []\<close>, of ?first] True obtain taken where
        t: "cs = taken @ ?rest"
           "?cur = (if taken \<noteq> [] \<and> py_strip (last taken) = [] then butlast taken else taken)"
        by auto
      show ?thesis
      proof (cases "ch \<in> set ?rest")
        case True
        with ch(2) show ?thesis by blast
      next
        case False
        with ch(1) t(1) have m: "ch \<in> set taken" by (metis UnE set_append)
        then have "taken \<noteq> []" by auto
        have "?cur \<noteq> []"
        proof (cases "py_strip (last taken) = []")
          case True
          with ch(2) have "ch \<noteq> last taken" by auto
          with m \<open>taken \<noteq> []\<close> have "ch \<in> set (butlast taken)"
            by (metis append_butlast_last_id set_ConsD set_append UnE list.set(1) empty_iff rotate1.simps(2) set_rotate1)
          with True \<open>taken \<noteq> []\<close> t(2) show ?thesis by auto
        next
          case False
          with \<open>taken \<noteq> []\<close> t(2) show ?thesis by simp
        qed
        then show ?thesis by simp
      qed
    qed
    from "1.IH" [OF False a b] False show ?thesis
      by (subst wrap_chunks.simps) simp
  qed
qed

text \<open>A line that is in order is wrapped to itself.\<close>

lemma rewrap_line:
  assumes "line_ok w l"
  shows "textwrap_wrap w l = [l]"
proof -
  from assms have l: "l \<noteq> []" "length l \<le> w" "\<forall>x \<in> set l. clean x" "\<not> py_isspace (last l)"
    by (simp_all add: line_ok_def)
  let ?cs = "tw_split [] l"
  have m: "munge_whitespace l = l" using l(3) by (rule munge_id)
  have c: "concat ?cs = l" by (rule concat_tw_split)
  have u: "\<forall>ch \<in> set ?cs. uniform ch" using l(3) by (rule tw_split_uniform)
  from c l(1) have ne: "?cs \<noteq> []" by auto
  have len: "sum_list (map length ?cs) = length l"
    using c by (metis length_concat)
  have f: "fill_line w [] 0 ?cs = (?cs, length l, [])"
    using fill_line_all [of 0 ?cs w "[]"] len l(2) by simp
  from ne u have lu: "last ?cs \<noteq> []" by (simp add: uniform_def)
  from ne have "concat ?cs = concat (butlast ?cs) @ last ?cs"
    by (metis append_butlast_last_id concat.simps concat_append append_Nil2)
  with c lu have "last l = last (last ?cs)" by (metis last_appendR)
  with l(4) lu have nb: "py_strip (last ?cs) \<noteq> []"
    using py_strip_blank [of "last ?cs"] last_in_set [OF lu] by metis
  have wl: "wrap_line w True ?cs = (?cs, [])"
    using f nb ne by (simp add: wrap_line_def Let_def)
  have "wrap_chunks w [] ?cs = wrap_chunks w [concat ?cs] []"
    using ne wl by (subst wrap_chunks.simps) simp
  also have "\<dots> = [l]"
    using c by (subst wrap_chunks.simps) simp
  finally show ?thesis
    by (simp add: textwrap_wrap_def m)
qed

subsection \<open>The paragraphs of a message\<close>

lemma wrap_paragraphs_concat:
  "wrap_paragraphs ps acc
     = acc @ concat (map (\<lambda>p. if py_strip p \<noteq> [] then textwrap_wrap 35 p else [[]]) ps)"
  by (induction ps arbitrary: acc) simp_all

lemma wrapped_lines_concat:
  "wrapped_lines message
     = concat (map (\<lambda>p. if py_strip p \<noteq> [] then textwrap_wrap 35 p else [[]]) (split_nl message))"
  by (simp add: wrapped_lines_def wrap_paragraphs_concat)

lemma split_nl_nonempty: "split_nl s \<noteq> []"
  by (induction s) (auto split: list.splits)

lemma split_nl_set: "p \<in> set (split_nl s) \<Longrightarrow> set p \<subseteq> set s"
proof (induction s arbitrary: p)
  case Nil
  then show ?case by simp
next
  case (Cons c s)
  show ?case
  proof (cases "c = CHR 0x0A")
    case True
    with Cons show ?thesis by auto
  next
    case False
    obtain q qs where q: "split_nl s = q # qs"
      using split_nl_nonempty [of s] by (cases "split_nl s") auto
    with False Cons.prems have "p = c # q \<or> p \<in> set qs" by simp
    with q Cons.IH [of q] Cons.IH [of p] show ?thesis by auto
  qed
qed

lemma split_nl_plain: "CHR 0x0A \<notin> set l \<Longrightarrow> split_nl l = [l]"
  by (induction l) auto

lemma split_nl_append:
  "CHR 0x0A \<notin> set l \<Longrightarrow> split_nl (l @ CHR 0x0A # r) = l # split_nl r"
  by (induction l) auto

lemma split_join_nl:
  "ls \<noteq> [] \<Longrightarrow> \<forall>l \<in> set ls. CHR 0x0A \<notin> set l \<Longrightarrow> split_nl (join_nl ls) = ls"
proof (induction ls rule: join_nl.induct)
  case 1
  then show ?case by simp
next
  case (2 l)
  then show ?case by (simp add: split_nl_plain)
next
  case (3 l v va)
  then show ?case by (simp add: split_nl_append)
qed

lemma in_concat_map: "l \<in> set (concat (map f ps)) \<Longrightarrow> \<exists>p \<in> set ps. l \<in> set (f p)"
  by (induction ps) auto

subsection \<open>C6: wrapping twice\<close>

text \<open>
  C6, as stated, fails, in two ways. A line that is filled to the width by a chunk of spaces,
  before a word too long for any line, keeps the spaces at its end; and a character that is
  white space for \<open>str.strip\<close> but not for \<open>textwrap\<close>, such as \<open>0x1F\<close>, is dropped at the
  end of a line without the space before it. Wrapped again, either line loses its last space.
\<close>

theorem C6_counterexample:
  "wrapped_lines (replicate 34 (CHR ''a'') @ '' '' @ replicate 40 (CHR ''b''))
     = [replicate 34 (CHR ''a'') @ '' '', replicate 35 (CHR ''b''), replicate 5 (CHR ''b'')]
   \<and> length (replicate 34 (CHR ''a'') @ '' '') = 35
   \<and> wrapped_lines (join_nl [replicate 34 (CHR ''a'') @ '' '', replicate 35 (CHR ''b''),
                              replicate 5 (CHR ''b'')])
     = [replicate 34 (CHR ''a''), replicate 35 (CHR ''b''), replicate 5 (CHR ''b'')]
   \<and> wrapped_lines [CHR ''a'', CHR 0x20, CHR 0x1F] = [''a '']
   \<and> wrapped_lines (join_nl [''a '']) = [''a'']"
  by code_simp

text \<open>
  C6, amended. Take a message whose only white space is what \<open>textwrap\<close> knows (space, tab,
  line feed, vertical tab, form feed, carriage return) and whose chunks (a word, a part of a
  hyphenated word, a dash, a run of spaces) are at most 35 characters long. Then wrapping
  the wrapped message again yields the same lines, and every line has at most 35 characters.
  For every message the lines are those of its paragraphs in turn, the paragraphs being
  separated by the line feeds, with one empty line for a blank paragraph.
\<close>

theorem C6_wrap_idempotent:
  assumes good: "\<forall>c \<in> set message. py_isspace c \<longrightarrow> tw_space c"
    and short: "\<forall>p \<in> set (split_nl message).
                  \<forall>ch \<in> set (tw_split [] (munge_whitespace p)). length ch \<le> 35"
  shows "wrapped_lines (join_nl (wrapped_lines message)) = wrapped_lines message
    \<and> (\<forall>l \<in> set (wrapped_lines message). length l \<le> 35)
    \<and> wrapped_lines message
        = concat (map (\<lambda>p. if py_strip p \<noteq> [] then textwrap_wrap 35 p else [[]])
            (split_nl message))"
proof -
  let ?f = "\<lambda>p. if py_strip p \<noteq> [] then textwrap_wrap 35 p else [[]]"
  let ?out = "wrapped_lines message"
  have out: "?out = concat (map ?f (split_nl message))" by (rule wrapped_lines_concat)
  have para: "?f p \<noteq> [] \<and> (\<forall>l \<in> set (?f p). l = [] \<or> line_ok 35 l)"
    if p: "p \<in> set (split_nl message)" for p
  proof (cases "py_strip p = []")
    case True
    then show ?thesis by simp
  next
    case False
    let ?cs = "tw_split [] (munge_whitespace p)"
    from p good split_nl_set have g: "\<forall>c \<in> set p. py_isspace c \<longrightarrow> tw_space c" by blast
    then have cl: "\<forall>c \<in> set (munge_whitespace p). clean c" by (rule munge_clean)
    from p short have "\<forall>ch \<in> set ?cs. length ch \<le> 35" by blast
    with cl have ok: "chunks_ok 35 ?cs" by (rule tw_split_ok)
    from False obtain x where x: "x \<in> set p" "\<not> py_isspace x"
      using py_strip_blank [of p] by blast
    then have "x \<in> set (munge_whitespace p)" by (rule munge_keeps)
    then have "x \<in> set (concat ?cs)" by (simp only: concat_tw_split)
    then obtain ch where ch: "ch \<in> set ?cs" "x \<in> set ch" by auto
    with x(2) have "py_strip ch \<noteq> []" using py_strip_blank [of ch] by blast
    with ch(1) have "[] \<noteq> [] \<or> (\<exists>ch \<in> set ?cs. py_strip ch \<noteq> [])" by blast
    from wrap_chunks_nonempty [OF ok this] have 1: "textwrap_wrap 35 p \<noteq> []"
      by (simp add: textwrap_wrap_def)
    from wrap_chunks_ok [OF ok, of "[]"] have 2: "\<forall>l \<in> set (textwrap_wrap 35 p). line_ok 35 l"
      by (simp add: textwrap_wrap_def)
    from False 1 2 show ?thesis by simp
  qed
  have lines: "l = [] \<or> line_ok 35 l" if "l \<in> set ?out" for l
  proof -
    from that have "l \<in> set (concat (map ?f (split_nl message)))" by (simp only: out)
    then have "\<exists>p \<in> set (split_nl message). l \<in> set (?f p)" by (rule in_concat_map)
    with para show ?thesis by blast
  qed
  have ne: "?out \<noteq> []"
  proof -
    obtain p ps where ps: "split_nl message = p # ps"
      using split_nl_nonempty [of message] by (cases "split_nl message") auto
    then have "p \<in> set (split_nl message)" by simp
    with para have "?f p \<noteq> []" by blast
    with ps out show ?thesis by simp
  qed
  have nonl: "\<forall>l \<in> set ?out. CHR 0x0A \<notin> set l"
  proof
    fix l assume "l \<in> set ?out"
    with lines have "l = [] \<or> line_ok 35 l" by blast
    then show "CHR 0x0A \<notin> set l"
      using clean_not_newline by (auto simp: line_ok_def)
  qed
  have again: "?f l = [l]" if "l \<in> set ?out" for l
  proof -
    from that lines have "l = [] \<or> line_ok 35 l" by blast
    then show ?thesis
    proof
      assume "l = []"
      then show ?thesis by (simp add: py_strip_def)
    next
      assume ok: "line_ok 35 l"
      then have "l \<noteq> []" "\<not> py_isspace (last l)" by (simp_all add: line_ok_def)
      then have "py_strip l \<noteq> []"
        using py_strip_blank [of l] last_in_set [of l] by blast
      with rewrap_line [OF ok] show ?thesis by simp
    qed
  qed
  have "wrapped_lines (join_nl ?out) = concat (map ?f (split_nl (join_nl ?out)))"
    by (rule wrapped_lines_concat)
  also have "split_nl (join_nl ?out) = ?out"
    using ne nonl by (rule split_join_nl)
  also have "map ?f ?out = map (\<lambda>l. [l]) ?out"
    using again by (intro map_cong refl) blast
  also have "concat (map (\<lambda>l. [l]) ?out) = ?out"
    by (induction ?out) simp_all
  finally have idem: "wrapped_lines (join_nl ?out) = ?out" .
  have bound: "\<forall>l \<in> set ?out. length l \<le> 35"
  proof
    fix l assume "l \<in> set ?out"
    with lines have "l = [] \<or> line_ok 35 l" by blast
    then show "length l \<le> 35" by (auto simp: line_ok_def)
  qed
  from idem bound out show ?thesis by blast
qed

theorem C6_wrap_idempotent_witness:
  "list_all (\<lambda>c. py_isspace c \<longrightarrow> tw_space c) greeting
   \<and> list_all (\<lambda>p. list_all (\<lambda>ch. length ch \<le> 35) (tw_split [] (munge_whitespace p)))
       (split_nl greeting)
   \<and> wrapped_lines greeting
       = [''Greetings from sunny Paris, where'', ''the well-known cafes never close an'',
          ''hour early.'', [], ''See you soon!'']
   \<and> wrapped_lines (join_nl (wrapped_lines greeting)) = wrapped_lines greeting
   \<and> list_all (\<lambda>l. length l \<le> 35) (wrapped_lines greeting)"
proof -
  have h1: "list_all (\<lambda>c. py_isspace c \<longrightarrow> tw_space c) greeting"
    by code_simp
  have h2: "list_all (\<lambda>p. list_all (\<lambda>ch. length ch \<le> 35) (tw_split [] (munge_whitespace p)))
       (split_nl greeting)"
    by code_simp
  have v: "wrapped_lines greeting
       = [''Greetings from sunny Paris, where'', ''the well-known cafes never close an'',
          ''hour early.'', [], ''See you soon!'']"
    by code_simp
  from h1 have g: "\<forall>c \<in> set greeting. py_isspace c \<longrightarrow> tw_space c"
    by (simp only: list_all_iff)
  from h2 have s: "\<forall>p \<in> set (split_nl greeting).
      \<forall>ch \<in> set (tw_split [] (munge_whitespace p)). length ch \<le> 35"
    by (simp only: list_all_iff)
  note t = C6_wrap_idempotent [OF g s]
  note a = t [THEN conjunct1]
  note b = t [THEN conjunct2, THEN conjunct1]
  from b have b': "list_all (\<lambda>l. length l \<le> 35) (wrapped_lines greeting)"
    by (simp only: list_all_iff)
  from h1 h2 v a b' show ?thesis by (intro conjI)
qed

end
